theory Spec2Isabelle
  imports Main "HOL-Library.Sublist"
begin


section \<open>Strings of the browser client\<close>

text \<open>
  A JavaScript string is a sequence of UTF-16 code units. The model uses \<^typ>\<open>string\<close>,
  whose characters are the code units below 256 (the Latin-1 range); on that range the
  three string operations the client relies on are written out in full below:
  \<^verbatim>\<open>String.prototype.toLowerCase\<close>, \<^verbatim>\<open>String.prototype.trim\<close> and
  \<^verbatim>\<open>encodeURIComponent\<close>.
\<close>

definition toLowerCase_unit :: "char \<Rightarrow> char" where
  "toLowerCase_unit c =
     (let n = (of_char c :: nat)
      in if (65 \<le> n \<and> n \<le> 90) \<or> (192 \<le> n \<and> n \<le> 222 \<and> n \<noteq> 215)
         then char_of (n + 32) else c)"

definition toLowerCase :: "string \<Rightarrow> string" where
  "toLowerCase s = map toLowerCase_unit s"

text \<open>
  \<^verbatim>\<open>trim\<close> removes white space and line terminators from both ends: TAB, LF, VT, FF, CR,
  SPACE and NO-BREAK SPACE are the ones below 256.
\<close>

definition is_whitespace :: "char \<Rightarrow> bool" where
  "is_whitespace c = ((of_char c :: nat) \<in> {9, 10, 11, 12, 13, 32, 160})"

definition trim :: "string \<Rightarrow> string" where
  "trim s = rev (dropWhile is_whitespace (rev (dropWhile is_whitespace s)))"

text \<open>\<^verbatim>\<open>Array.prototype.join\<close> with a separator.\<close>

fun join :: "string \<Rightarrow> string list \<Rightarrow> string" where
  "join sep [] = []"
| "join sep [x] = x"
| "join sep (x # y # ys) = x @ sep @ join sep (y # ys)"

text \<open>
  \<^verbatim>\<open>encodeURIComponent\<close> keeps letters, digits and \<^verbatim>\<open>- _ . ! ~ * ' ( )\<close>; every
  other code unit is written as the percent-escaped bytes of its UTF-8 encoding (one byte
  below 128, two bytes from 128 to 255).
\<close>

definition hex_digit :: "nat \<Rightarrow> char" where
  "hex_digit d = (if d < 10 then char_of (48 + d) else char_of (55 + d))"

definition percent_byte :: "nat \<Rightarrow> string" where
  "percent_byte b = [CHR ''%'', hex_digit (b div 16), hex_digit (b mod 16)]"

definition is_unreserved :: "char \<Rightarrow> bool" where
  "is_unreserved c =
     (let n = (of_char c :: nat)
      in (65 \<le> n \<and> n \<le> 90) \<or> (97 \<le> n \<and> n \<le> 122) \<or> (48 \<le> n \<and> n \<le> 57)
         \<or> n \<in> {45, 95, 46, 33, 126, 42, 39, 40, 41})"

definition encode_unit :: "char \<Rightarrow> string" where
  "encode_unit c =
     (let n = (of_char c :: nat)
      in if is_unreserved c then [c]
         else if n < 128 then percent_byte n
         else percent_byte (192 + n div 64) @ percent_byte (128 + n mod 64))"

definition encodeURIComponent :: "string \<Rightarrow> string" where
  "encodeURIComponent s = concat (map encode_unit s)"


section \<open>The upload client (\<^verbatim>\<open>DatasetManager\<close> with file and keyword modes)\<close>

text \<open>
  The variant of \<^verbatim>\<open>DatasetManager\<close> that searches by uploaded files or by keyword and
  shows the files of a selected dataset. Each handler is a function from the manager (and
  what the handler reads from the page) to the manager it leaves and the effects it has,
  in order.
\<close>

subsection \<open>Data\<close>

text \<open>
  A browser \<^verbatim>\<open>File\<close> with its \<^verbatim>\<open>name\<close>, \<^verbatim>\<open>type\<close> and \<^verbatim>\<open>size\<close>.
\<close>

record File =
  name :: string
  file_type :: string
  file_size :: nat

text \<open>
  One element of the \<^verbatim>\<open>datasets\<close> array in a backend answer, with the fields the client
  reads (\<^verbatim>\<open>files\<close> holds pairs, read as \<^verbatim>\<open>file[0]\<close> and \<^verbatim>\<open>file[1]\<close>).
\<close>

record MarketplaceRecord =
  reference :: string
  title :: string
  license :: string
  last_updated :: string
  tags :: "string list"
  files :: "(string \<times> string) list"

text \<open>
  An entry of \<^verbatim>\<open>availableDatasets\<close>: the answer's fields with \<^verbatim>\<open>id\<close> and
  \<^verbatim>\<open>category\<close> added.
\<close>

record listing = MarketplaceRecord +
  listing_id :: int
  listing_category :: string

record manager =
  availableDatasets :: "listing list"
  uploadedFiles :: "File list"
  selectedDataset :: "listing option"
  currentMode :: string

text \<open>The state the constructor leaves.\<close>

definition constructor :: manager where
  "constructor =
     \<lparr>availableDatasets = [], uploadedFiles = [], selectedDataset = None,
      currentMode = ''files''\<rparr>"

text \<open>
  What a handler does to the world outside the manager: dialogs, HTTP requests and writes
  to the page. Page content is kept as a tag for each fixed message and as the rendered
  list otherwise (the type parameter is the type of a rendered dataset); console output is
  left out.
\<close>

datatype http_method = GET | POST

datatype 'd markup =
    LoadingDatasets
  | LoadingSimilar
  | SearchError
  | SimilarError
  | NoResultsYet
  | NoDatasetsFound
  | ClickOnDataset
  | NoFilesAvailable
  | DatasetItems "'d list"
  | DatasetFiles string "(string \<times> string) list"
  | FileItems "File list"

datatype 'd effect =
    Alert string
  | Fetch http_method string "File list"
  | SetInnerHTML string "'d markup"
  | SetDisplay string string
  | SetValue string string

definition BACKEND_URL :: string where
  "BACKEND_URL = ''https://data-lakes-management.onrender.com''"

subsection \<open>File validation and the list of uploaded files\<close>

definition allowedTypes :: "string list" where
  "allowedTypes = [''.csv'', ''.pdf'', ''.docx'', ''.xlsx'']"

definition isValidFileType :: "File \<Rightarrow> bool" where
  "isValidFileType f =
     (let fileName = toLowerCase (name f)
      in list_ex (\<lambda>t. suffix t fileName) allowedTypes)"

definition renderUploadedFiles :: "manager \<Rightarrow> listing effect list" where
  "renderUploadedFiles m =
     (if length (uploadedFiles m) = 0 then [SetDisplay ''uploadedFiles'' ''none'']
      else [SetDisplay ''uploadedFiles'' ''block'',
            SetInnerHTML ''fileList'' (FileItems (uploadedFiles m))])"

definition unsupported_message :: "File list \<Rightarrow> string" where
  "unsupported_message invalidFiles =
     ''The following files are not supported: '' @ join '', '' (map name invalidFiles)
       @ [CHR 0x0A, CHR 0x0A]
       @ ''Supported formats: CSV, PDF, Word (.docx), Excel (.xlsx)''"

definition handleFileSelect :: "File list \<Rightarrow> manager \<Rightarrow> manager \<times> listing effect list" where
  "handleFileSelect fs m =
     (let validFiles = filter isValidFileType fs;
          invalidFiles = filter (\<lambda>f. \<not> isValidFileType f) fs;
          alerts = (if length invalidFiles > 0 then [Alert (unsupported_message invalidFiles)]
                    else [])
      in if length validFiles > 0
         then (let m' = m\<lparr>uploadedFiles := uploadedFiles m @ validFiles\<rparr>
               in (m', alerts @ renderUploadedFiles m'))
         else (m, alerts))"

text \<open>
  \<^verbatim>\<open>Array.prototype.splice(start, 1)\<close>: a negative start counts from the end, a start
  beyond the end removes nothing.
\<close>

definition splice1 :: "int \<Rightarrow> 'a list \<Rightarrow> 'a list" where
  "splice1 start xs =
     (let len = int (length xs);
          actualStart = (if start < 0 then max (len + start) 0 else min start len);
          deleteCount = min 1 (len - actualStart)
      in take (nat actualStart) xs @ drop (nat (actualStart + deleteCount)) xs)"

definition removeFile :: "int \<Rightarrow> manager \<Rightarrow> manager \<times> listing effect list" where
  "removeFile index m =
     (let m' = m\<lparr>uploadedFiles := splice1 index (uploadedFiles m)\<rparr>
      in (m', renderUploadedFiles m'))"

definition clearAll :: "manager \<Rightarrow> manager \<times> listing effect list" where
  "clearAll m =
     (m\<lparr>availableDatasets := [], uploadedFiles := [], selectedDataset := None\<rparr>,
      [SetInnerHTML ''availableDatasets'' NoResultsYet,
       SetInnerHTML ''filesList'' ClickOnDataset,
       SetDisplay ''uploadedFiles'' ''none'',
       SetValue ''fileInput'' [],
       SetValue ''searchInput'' []])"


subsection \<open>Searching\<close>

text \<open>
  What \<^verbatim>\<open>await fetch(...)\<close> and \<^verbatim>\<open>await response.json()\<close> can give: a rejected
  promise, a response that is not \<^verbatim>\<open>ok\<close> (status and text), a body without a
  \<^verbatim>\<open>datasets\<close> array, or the array with the answer's \<^verbatim>\<open>message\<close>. A handler is
  modelled as one step from the click to the end of its \<^verbatim>\<open>try\<close> block, with the
  backend's answer as an argument.
\<close>

datatype reply =
    NetworkFailure
  | HttpError nat string
  | Malformed
  | Datasets "MarketplaceRecord list" string

definition to_listing :: "string \<Rightarrow> nat \<times> MarketplaceRecord \<Rightarrow> listing" where
  "to_listing cat p =
     (case p of (index, dataset) \<Rightarrow>
        \<lparr>reference = reference dataset, title = title dataset, license = license dataset,
         last_updated = last_updated dataset, tags = tags dataset, files = files dataset,
         listing_id = int index + 1, listing_category = cat\<rparr>)"

definition renderAvailableDatasets :: "manager \<Rightarrow> listing effect list" where
  "renderAvailableDatasets m =
     (if length (availableDatasets m) = 0
      then [SetInnerHTML ''availableDatasets'' NoDatasetsFound]
      else [SetInnerHTML ''availableDatasets'' (DatasetItems (availableDatasets m))])"

definition handleSearchWithFiles :: "reply \<Rightarrow> manager \<Rightarrow> manager \<times> listing effect list" where
  "handleSearchWithFiles r m =
     (if length (uploadedFiles m) = 0
      then (m, [Alert ''Please upload at least one file before searching for similar datasets.''])
      else
        (let started = [SetInnerHTML ''availableDatasets'' LoadingSimilar,
                        Fetch POST (BACKEND_URL @ ''/search-files'') (uploadedFiles m)]
         in case r of
              Datasets ds msg \<Rightarrow>
                (let m' = m\<lparr>availableDatasets :=
                              map (to_listing ''Similar Dataset'') (enumerate 0 ds)\<rparr>
                 in (m', started @ renderAvailableDatasets m'))
            | _ \<Rightarrow> (m, started @ [SetInnerHTML ''availableDatasets'' SimilarError])))"

definition handleSearchWithKeyword ::
  "string \<Rightarrow> reply \<Rightarrow> manager \<Rightarrow> manager \<times> listing effect list" where
  "handleSearchWithKeyword searchInput r m =
     (let searchTerm = trim searchInput
      in if searchTerm = []
         then (m, [Alert ''Please enter a search keyword''])
         else
           (let started = [SetInnerHTML ''availableDatasets'' LoadingDatasets,
                           Fetch GET (BACKEND_URL @ ''/search-keyword?keyword=''
                                        @ encodeURIComponent searchTerm) []]
            in case r of
                 Datasets ds msg \<Rightarrow>
                   (let m' = m\<lparr>availableDatasets :=
                                 map (to_listing ''Search Result'') (enumerate 0 ds)\<rparr>
                    in (m', started @ renderAvailableDatasets m'))
               | _ \<Rightarrow> (m, started @ [SetInnerHTML ''availableDatasets'' SearchError])))"

definition handleSearch :: "string \<Rightarrow> reply \<Rightarrow> manager \<Rightarrow> manager \<times> listing effect list" where
  "handleSearch searchInput r m =
     (if currentMode m = ''files'' then handleSearchWithFiles r m
      else handleSearchWithKeyword searchInput r m)"

definition renderFilesList :: "manager \<Rightarrow> listing effect list" where
  "renderFilesList m =
     (case selectedDataset m of
        None \<Rightarrow> [SetInnerHTML ''filesList'' ClickOnDataset]
      | Some d \<Rightarrow>
          if length (files d) = 0 then [SetInnerHTML ''filesList'' NoFilesAvailable]
          else [SetInnerHTML ''filesList'' (DatasetFiles (title d) (files d))])"

definition selectDataset :: "int \<Rightarrow> manager \<Rightarrow> manager \<times> listing effect list" where
  "selectDataset datasetId m =
     (let m' = m\<lparr>selectedDataset :=
                   List.find (\<lambda>d. listing_id d = datasetId) (availableDatasets m)\<rparr>
      in (m', renderFilesList m'))"

definition handleModeChange :: "string \<Rightarrow> manager \<Rightarrow> manager \<times> listing effect list" where
  "handleModeChange mode m =
     (m\<lparr>currentMode := mode\<rparr>,
      if mode = ''files''
      then [SetDisplay ''fileUploadArea'' ''flex'', SetDisplay ''searchInputArea'' ''none'']
      else [SetDisplay ''fileUploadArea'' ''none'', SetDisplay ''searchInputArea'' ''flex''])"

text \<open>
  The user's actions on the page, and the manager after a sequence of them. A drop on the
  upload area is a selection of the dropped files. \<^verbatim>\<open>processUploadedFiles\<close> is never
  called and is left out.
\<close>

datatype action =
    SelectFiles "File list"
  | RemoveFile int
  | ClearAll
  | ChangeMode string
  | Search string reply
  | SelectDataset int

fun perform :: "manager \<Rightarrow> action \<Rightarrow> manager" where
  "perform m (SelectFiles fs) = fst (handleFileSelect fs m)"
| "perform m (RemoveFile index) = fst (removeFile index m)"
| "perform m ClearAll = fst (clearAll m)"
| "perform m (ChangeMode mode) = fst (handleModeChange mode m)"
| "perform m (Search searchInput r) = fst (handleSearch searchInput r m)"
| "perform m (SelectDataset datasetId) = fst (selectDataset datasetId m)"

definition after_actions :: "action list \<Rightarrow> manager" where
  "after_actions acts = foldl perform constructor acts"

text \<open>An effect that is an HTTP request; a manager all of whose uploaded files are valid.\<close>

definition is_fetch :: "'d effect \<Rightarrow> bool" where
  "is_fetch e = (case e of Fetch meth url body \<Rightarrow> True | _ \<Rightarrow> False)"

definition valid_uploads :: "manager \<Rightarrow> bool" where
  "valid_uploads m = list_all isValidFileType (uploadedFiles m)"


section \<open>The download client (\<^verbatim>\<open>script.js\<close>)\<close>

text \<open>
  The \<^verbatim>\<open>DatasetManager\<close> of \<^verbatim>\<open>script.js\<close> keeps the search results and the
  list of datasets selected for download. Its names carry the suffix \<open>_s\<close> where the
  upload client above has a member of the same name.
\<close>

record dataset =
  dataset_id :: int
  dataset_name :: string
  description :: string
  category :: string

text \<open>
  \<^verbatim>\<open>toggleDatasetSelection\<close> pushes the result of \<^verbatim>\<open>find\<close> without testing it, so an
  entry of \<^verbatim>\<open>downloadDatasets\<close> is a dataset or \<^verbatim>\<open>undefined\<close> (\<open>None\<close>).
\<close>

record manager_s =
  availableDatasets_s :: "dataset list"
  downloadDatasets :: "dataset option list"

definition constructor_s :: manager_s where
  "constructor_s = \<lparr>availableDatasets_s = [], downloadDatasets = []\<rparr>"

text \<open>
  The argument of the selection handlers is the result of \<^verbatim>\<open>parseInt\<close>: an integer or
  \<^verbatim>\<open>NaN\<close>, which \<^verbatim>\<open>===\<close> finds equal to nothing. Reading \<^verbatim>\<open>d.id\<close> of
  \<^verbatim>\<open>undefined\<close> throws a \<^verbatim>\<open>TypeError\<close>.
\<close>

datatype jsnum = Num int | NaN

datatype error = TypeError

definition find_by_id :: "jsnum \<Rightarrow> dataset list \<Rightarrow> dataset option" where
  "find_by_id datasetId ds = List.find (\<lambda>d. Num (dataset_id d) = datasetId) ds"

fun findIndex_by_id :: "jsnum \<Rightarrow> dataset option list \<Rightarrow> error + int" where
  "findIndex_by_id datasetId [] = Inr (- 1)"
| "findIndex_by_id datasetId (None # ds) = Inl TypeError"
| "findIndex_by_id datasetId (Some d # ds) =
     (if Num (dataset_id d) = datasetId then Inr 0
      else (case findIndex_by_id datasetId ds of
              Inl e \<Rightarrow> Inl e
            | Inr k \<Rightarrow> Inr (if k = - 1 then - 1 else k + 1)))"

text \<open>\<^verbatim>\<open>downloadDatasets.filter(d => d.id !== datasetId)\<close>\<close>

fun filter_other_ids :: "jsnum \<Rightarrow> dataset option list \<Rightarrow> error + dataset option list" where
  "filter_other_ids datasetId [] = Inr []"
| "filter_other_ids datasetId (None # ds) = Inl TypeError"
| "filter_other_ids datasetId (Some d # ds) =
     (case filter_other_ids datasetId ds of
        Inl e \<Rightarrow> Inl e
      | Inr kept \<Rightarrow> Inr (if Num (dataset_id d) \<noteq> datasetId then Some d # kept else kept))"

text \<open>
  \<^verbatim>\<open>renderDownloadDatasets\<close> reads \<^verbatim>\<open>dataset.id\<close> of every entry unless the list is
  empty; only its exception matters to the manager's state. \<^verbatim>\<open>updateDownloadButton\<close>
  writes to the page and cannot throw.
\<close>

definition renderDownloadDatasets :: "dataset option list \<Rightarrow> error option" where
  "renderDownloadDatasets ds =
     (if length ds = 0 then None
      else if list_ex (\<lambda>e. e = None) ds then Some TypeError else None)"

text \<open>
  A selection handler returns the manager it leaves and the exception it ended with, if
  any: a handler that throws after an assignment leaves the assignment in place.
\<close>

definition toggleDatasetSelection :: "jsnum \<Rightarrow> manager_s \<Rightarrow> manager_s \<times> error option" where
  "toggleDatasetSelection datasetId m =
     (let dataset = find_by_id datasetId (availableDatasets_s m)
      in case findIndex_by_id datasetId (downloadDatasets m) of
           Inl e \<Rightarrow> (m, Some e)
         | Inr existingIndex \<Rightarrow>
             (let m' = (if existingIndex = - 1
                        then m\<lparr>downloadDatasets := downloadDatasets m @ [dataset]\<rparr>
                        else m\<lparr>downloadDatasets := splice1 existingIndex (downloadDatasets m)\<rparr>)
              in (m', renderDownloadDatasets (downloadDatasets m'))))"

definition addToDownloadList :: "jsnum \<Rightarrow> manager_s \<Rightarrow> manager_s \<times> error option" where
  "addToDownloadList datasetId m =
     (case find_by_id datasetId (availableDatasets_s m) of
        None \<Rightarrow> (m, None)
      | Some dataset \<Rightarrow>
          (case findIndex_by_id datasetId (downloadDatasets m) of
             Inl e \<Rightarrow> (m, Some e)
           | Inr existingIndex \<Rightarrow>
               (let m' = (if existingIndex = - 1
                          then m\<lparr>downloadDatasets := downloadDatasets m @ [Some dataset]\<rparr>
                          else m)
                in (m', renderDownloadDatasets (downloadDatasets m')))))"

definition removeFromDownloadList :: "jsnum \<Rightarrow> manager_s \<Rightarrow> manager_s \<times> error option" where
  "removeFromDownloadList datasetId m =
     (case filter_other_ids datasetId (downloadDatasets m) of
        Inl e \<Rightarrow> (m, Some e)
      | Inr kept \<Rightarrow> (m\<lparr>downloadDatasets := kept\<rparr>, renderDownloadDatasets kept))"

definition clearAll_s :: "manager_s \<Rightarrow> manager_s \<times> error option" where
  "clearAll_s m = (m\<lparr>downloadDatasets := [], availableDatasets_s := []\<rparr>, None)"

text \<open>The keyword search of \<^verbatim>\<open>script.js\<close>.\<close>

definition to_dataset :: "nat \<times> MarketplaceRecord \<Rightarrow> dataset" where
  "to_dataset p =
     (case p of (index, d) \<Rightarrow>
        \<lparr>dataset_id = int index + 1, dataset_name = title d, description = reference d,
         category = ''Kaggle Dataset''\<rparr>)"

definition renderAvailableDatasets_s :: "manager_s \<Rightarrow> dataset effect list" where
  "renderAvailableDatasets_s m =
     (if length (availableDatasets_s m) = 0
      then [SetInnerHTML ''availableDatasets'' NoDatasetsFound]
      else [SetInnerHTML ''availableDatasets'' (DatasetItems (availableDatasets_s m))])"

definition handleSearch_s :: "string \<Rightarrow> reply \<Rightarrow> manager_s \<Rightarrow> manager_s \<times> dataset effect list" where
  "handleSearch_s searchInput r m =
     (let searchTerm = trim searchInput
      in if searchTerm = []
         then (m, [Alert ''Please enter a search keyword''])
         else
           (let started = [SetInnerHTML ''availableDatasets'' LoadingDatasets,
                           Fetch GET (BACKEND_URL @ ''/search?keyword=''
                                        @ encodeURIComponent searchTerm) []]
            in case r of
                 Datasets ds msg \<Rightarrow>
                   (let m' = m\<lparr>availableDatasets_s := map to_dataset (enumerate 0 ds)\<rparr>
                    in (m', started @ renderAvailableDatasets_s m'))
               | _ \<Rightarrow> (m, started @ [SetInnerHTML ''availableDatasets'' SearchError])))"

text \<open>
  The selection after a sequence of the user's actions; a handler that throws ends, and the
  next action starts from the manager it left.
\<close>

datatype action_s =
    Toggle jsnum
  | AddTo jsnum
  | RemoveFrom jsnum
  | ClearAll_s
  | Search_s string reply

fun perform_s :: "manager_s \<Rightarrow> action_s \<Rightarrow> manager_s" where
  "perform_s m (Toggle datasetId) = fst (toggleDatasetSelection datasetId m)"
| "perform_s m (AddTo datasetId) = fst (addToDownloadList datasetId m)"
| "perform_s m (RemoveFrom datasetId) = fst (removeFromDownloadList datasetId m)"
| "perform_s m ClearAll_s = fst (clearAll_s m)"
| "perform_s m (Search_s searchInput r) = fst (handleSearch_s searchInput r m)"

definition after_actions_s :: "action_s list \<Rightarrow> manager_s" where
  "after_actions_s acts = foldl perform_s constructor_s acts"

text \<open>The \<^verbatim>\<open>id\<close> of an entry of the selection, \<open>None\<close> for \<^verbatim>\<open>undefined\<close>.\<close>

definition entry_id :: "dataset option \<Rightarrow> int option" where
  "entry_id e = map_option dataset_id e"

definition unique_ids :: "manager_s \<Rightarrow> bool" where
  "unique_ids m = distinct (map entry_id (downloadDatasets m))"


section \<open>The rate-limited fetcher\<close>

text \<open>
  Modelled from the spec: the rate-limited fetcher (section 4.1) and its state (section
  3). The fetcher is part of the backend (\<^verbatim>\<open>backend/modules/datasets.py\<close> in the
  README), whose code is missing; the definitions of this section follow the component
  design of the specification sentence by sentence. Times and durations are natural
  numbers of clock ticks; the clock advances by the length of every suspension.
\<close>

record config =
  minDelay :: nat
  baseDelay :: nat
  maxDelay :: nat
  maxRetries :: nat

record RateLimiterState =
  lastCallTimestamp :: nat
  currentBackoffDelay :: nat
  consecutiveFailureCount :: nat

text \<open>
  The answer of the marketplace to one call: parsed records, a throttling response (HTTP
  429 or equivalent) or a transient network failure.
\<close>

datatype response =
    Success "MarketplaceRecord list"
  | Throttled
  | TransientFailure

datatype outcome = Records "MarketplaceRecord list" | TerminalError

text \<open>
  What the fetcher does that the outside can observe: a suspension to keep the minimum
  spacing, a call issued at a time, a suspension for a backoff delay.
\<close>

datatype event = Spacing nat | Call nat | Backoff nat

text \<open>
  Modelled from the spec: the spacing rule of the fetcher (section 4.1), whose code is
  missing. ``Before issuing a call, if elapsed time since \<^verbatim>\<open>lastCallTimestamp\<close> is
  less than the configured \<^verbatim>\<open>minDelay\<close>, the call suspends until \<^verbatim>\<open>minDelay\<close> has
  elapsed.'' The elapsed time is 0 for a timestamp that is not in the past.
\<close>

definition spacing_wait :: "config \<Rightarrow> RateLimiterState \<Rightarrow> nat \<Rightarrow> nat" where
  "spacing_wait cfg st now =
     (let elapsed = now - lastCallTimestamp st
      in if elapsed < minDelay cfg then minDelay cfg - elapsed else 0)"

definition spacing_events :: "config \<Rightarrow> RateLimiterState \<Rightarrow> nat \<Rightarrow> event list" where
  "spacing_events cfg st now =
     (if now - lastCallTimestamp st < minDelay cfg then [Spacing (spacing_wait cfg st now)]
      else [])"

text \<open>
  Modelled from the spec: the fetcher's update of its state on a failed call (section
  4.1), whose code is missing. ``On a throttling response or transient network failure:
  increment \<^verbatim>\<open>consecutiveFailureCount\<close>, compute delay = min(baseDelay *
  2^consecutiveFailureCount, maxDelay) \<dots>''; the delay is what
  \<^verbatim>\<open>currentBackoffDelay\<close> holds.
\<close>

definition on_failure :: "config \<Rightarrow> RateLimiterState \<Rightarrow> RateLimiterState" where
  "on_failure cfg st =
     (let n = consecutiveFailureCount st + 1
      in st\<lparr>consecutiveFailureCount := n,
            currentBackoffDelay := min (baseDelay cfg * 2 ^ n) (maxDelay cfg)\<rparr>)"

text \<open>
  Modelled from the spec: the fetcher's update of its state on a successful call (section
  4.1), whose code is missing. ``On success: reset \<^verbatim>\<open>consecutiveFailureCount\<close> to 0,
  set \<^verbatim>\<open>currentBackoffDelay\<close> to \<^verbatim>\<open>baseDelay\<close>, record
  \<^verbatim>\<open>lastCallTimestamp\<close>, return parsed records.''
\<close>

definition on_success :: "config \<Rightarrow> nat \<Rightarrow> RateLimiterState \<Rightarrow> RateLimiterState" where
  "on_success cfg now st =
     st\<lparr>consecutiveFailureCount := 0, currentBackoffDelay := baseDelay cfg,
        lastCallTimestamp := now\<rparr>"

definition is_failure :: "response \<Rightarrow> bool" where
  "is_failure r = (case r of Success recs \<Rightarrow> False | _ \<Rightarrow> True)"

text \<open>
  Modelled from the spec: the retry loop of the fetcher (section 4.1), whose code is
  missing. One attempt and the attempts after it: \<open>api k\<close> is the marketplace's answer to
  the call number \<open>k\<close> of the process, \<open>issued\<close> the number of calls made so far,
  \<open>made\<close> the number of attempts this request has made before this one. ``\<dots> suspend
  for that delay, retry. Stops retrying and surfaces a terminal error after a configured
  maximum retry count is exceeded.'' The count bounds the attempts of a request: with a
  maximum of 3 the third failed attempt ends the request and ``no 4th attempt [is]
  made'' (section 8; the README has ``Max Retries: 3 attempts''). The result is the
  outcome, the limiter's state, the time, and the events in order.
\<close>

function attempt ::
  "config \<Rightarrow> (nat \<Rightarrow> response) \<Rightarrow> nat \<Rightarrow> nat \<Rightarrow> RateLimiterState \<Rightarrow> nat
     \<Rightarrow> outcome \<times> RateLimiterState \<times> nat \<times> event list" where
  "attempt cfg api issued made st now =
     (let t = now + spacing_wait cfg st now;
          started = spacing_events cfg st now @ [Call t]
      in case api issued of
           Success recs \<Rightarrow> (Records recs, on_success cfg t st, t, started)
         | _ \<Rightarrow>
             (let st' = on_failure cfg st
              in if made + 1 < maxRetries cfg
                 then (let delay = currentBackoffDelay st'
                       in case attempt cfg api (issued + 1) (made + 1) st' (t + delay) of
                            (out, st'', t'', evs) \<Rightarrow>
                              (out, st'', t'', started @ [Backoff delay] @ evs))
                 else (TerminalError, st', t, started)))"
  by pat_completeness auto
termination
  by (relation "measure (\<lambda>(cfg, api, issued, made, st, now). maxRetries cfg - made)") auto

declare attempt.simps [simp del]

definition fetch ::
  "config \<Rightarrow> (nat \<Rightarrow> response) \<Rightarrow> nat \<Rightarrow> RateLimiterState \<Rightarrow> nat
     \<Rightarrow> outcome \<times> RateLimiterState \<times> nat \<times> event list" where
  "fetch cfg api issued st now = attempt cfg api issued 0 st now"

text \<open>The parts of a result, and what is read off a trace of events.\<close>

definition outcome_of :: "outcome \<times> RateLimiterState \<times> nat \<times> event list \<Rightarrow> outcome" where
  "outcome_of res = fst res"

definition state_of :: "outcome \<times> RateLimiterState \<times> nat \<times> event list \<Rightarrow> RateLimiterState" where
  "state_of res = fst (snd res)"

definition events_of :: "outcome \<times> RateLimiterState \<times> nat \<times> event list \<Rightarrow> event list" where
  "events_of res = snd (snd (snd res))"

fun calls :: "event list \<Rightarrow> nat list" where
  "calls [] = []"
| "calls (Call t # evs) = t # calls evs"
| "calls (e # evs) = calls evs"

fun backoffs :: "event list \<Rightarrow> nat list" where
  "backoffs [] = []"
| "backoffs (Backoff d # evs) = d # backoffs evs"
| "backoffs (e # evs) = backoffs evs"



text \<open>
  The limiter's state after a sequence of answered calls, each with the time it was
  issued: every answer is handled by one of the two updates above.
\<close>

definition handle_response :: "config \<Rightarrow> RateLimiterState \<Rightarrow> nat \<times> response \<Rightarrow> RateLimiterState" where
  "handle_response cfg st p =
     (case p of (t, r) \<Rightarrow> if is_failure r then on_failure cfg st else on_success cfg t st)"

definition after_calls :: "config \<Rightarrow> RateLimiterState \<Rightarrow> (nat \<times> response) list \<Rightarrow> RateLimiterState" where
  "after_calls cfg st answered = foldl (handle_response cfg) st answered"


section \<open>The result normalizer\<close>

text \<open>
  Modelled from the spec: \<^verbatim>\<open>normalize\<close> of the result normalizer (section 4.3), whose
  code is part of the backend and is missing. ``De-duplicates by \<^verbatim>\<open>reference\<close>,
  preserving first-seen order. Pure function, no side effects.'' The records are taken in
  order and one is kept when its reference has not been seen before. Raw records are
  taken in the shape of a \<^typ>\<open>MarketplaceRecord\<close> already.
\<close>

fun dedup :: "string set \<Rightarrow> MarketplaceRecord list \<Rightarrow> MarketplaceRecord list" where
  "dedup seen [] = []"
| "dedup seen (r # rs) =
     (if reference r \<in> seen then dedup seen rs
      else r # dedup (insert (reference r) seen) rs)"

definition normalize_records :: "MarketplaceRecord list \<Rightarrow> MarketplaceRecord list" where
  "normalize_records rawRecords = dedup {} rawRecords"


section \<open>Concrete inputs\<close>

text \<open>The inputs at which the theorems below are instantiated.\<close>

definition sample_txt :: File where
  "sample_txt = \<lparr>name = ''notes.txt'', file_type = ''text/plain'', file_size = 12\<rparr>"

definition sample_csv :: File where
  "sample_csv = \<lparr>name = ''Data.CSV'', file_type = ''text/csv'', file_size = 2048\<rparr>"

definition sample_files :: "File list" where
  "sample_files = [sample_txt, sample_csv]"

definition keyword_mode :: manager where
  "keyword_mode = constructor\<lparr>currentMode := ''keyword''\<rparr>"

definition sample_dataset :: "int \<Rightarrow> dataset" where
  "sample_dataset n =
     \<lparr>dataset_id = n, dataset_name = ''Titanic'', description = ''owner/titanic'',
      category = ''Kaggle Dataset''\<rparr>"

definition sample_selection :: manager_s where
  "sample_selection =
     \<lparr>availableDatasets_s = [sample_dataset 1, sample_dataset 2],
      downloadDatasets = [Some (sample_dataset 1)]\<rparr>"

definition sample_config :: config where
  "sample_config = \<lparr>minDelay = 2, baseDelay = 10, maxDelay = 60, maxRetries = 3\<rparr>"

definition sample_state :: RateLimiterState where
  "sample_state =
     \<lparr>lastCallTimestamp = 0, currentBackoffDelay = 10, consecutiveFailureCount = 0\<rparr>"

definition always_throttled :: "nat \<Rightarrow> response" where
  "always_throttled k = Throttled"

definition throttled_twice :: "nat \<Rightarrow> response" where
  "throttled_twice k = (if k < 2 then Throttled else Success [])"

definition sample_record :: "nat \<Rightarrow> MarketplaceRecord" where
  "sample_record n =
     \<lparr>reference = ''owner/titanic-'' @ replicate n (CHR ''i''), title = ''Titanic'',
      license = ''CC0-1.0'', last_updated = ''2024-01-01'', tags = [''titanic''],
      files = [(''train.csv'', ''59 KB'')]\<rparr>"

definition sample_page1 :: "MarketplaceRecord list" where
  "sample_page1 = map sample_record [0 ..< 50]"

definition sample_page2 :: "MarketplaceRecord list" where
  "sample_page2 = map sample_record [40 ..< 80]"

definition sample_raw :: "MarketplaceRecord list" where
  "sample_raw = [sample_record 1, sample_record 2, (sample_record 1)\<lparr>title := ''Titanic (copy)''\<rparr>]"


section \<open>Properties of the upload client\<close>

subsection \<open>Supported file types\<close>

lemma suffix_map_iff:
  "suffix t (map g n) \<longleftrightarrow> (\<exists>stem ext. n = stem @ ext \<and> map g ext = t)"
  unfolding suffix_def by (metis map_eq_append_conv)

lemma isValidFileType_iff:
  "isValidFileType f \<longleftrightarrow>
     (\<exists>stem ext. name f = stem @ ext \<and> toLowerCase ext \<in> set allowedTypes)"
  unfolding isValidFileType_def Let_def toLowerCase_def list_ex_iff suffix_map_iff
  by blast

lemma splice1_subset: "set (splice1 i xs) \<subseteq> set xs"
  unfolding splice1_def Let_def
  by (auto dest: in_set_takeD in_set_dropD)

lemma handleFileSelect_uploaded:
  "uploadedFiles (fst (handleFileSelect fs m)) = uploadedFiles m @ filter isValidFileType fs"
  by (simp add: handleFileSelect_def Let_def)

lemma valid_handleFileSelect:
  "valid_uploads m \<Longrightarrow> valid_uploads (fst (handleFileSelect fs m))"
  by (auto simp add: valid_uploads_def handleFileSelect_uploaded list_all_iff)

lemma valid_removeFile: "valid_uploads m \<Longrightarrow> valid_uploads (fst (removeFile i m))"
  using splice1_subset[of i "uploadedFiles m"]
  by (auto simp add: valid_uploads_def removeFile_def Let_def list_all_iff)

lemma valid_clearAll: "valid_uploads (fst (clearAll m))"
  by (simp add: valid_uploads_def clearAll_def)

lemma uploads_handleModeChange:
  "uploadedFiles (fst (handleModeChange mode m)) = uploadedFiles m"
  by (simp add: handleModeChange_def)

lemma uploads_handleSearch: "uploadedFiles (fst (handleSearch v r m)) = uploadedFiles m"
  by (simp add: handleSearch_def handleSearchWithFiles_def handleSearchWithKeyword_def Let_def
           split: reply.splits)

lemma uploads_selectDataset: "uploadedFiles (fst (selectDataset i m)) = uploadedFiles m"
  by (simp add: selectDataset_def Let_def)

lemma valid_perform: "valid_uploads m \<Longrightarrow> valid_uploads (perform m a)"
  by (cases a)
     (simp_all add: valid_handleFileSelect valid_removeFile valid_clearAll,
      simp_all add: valid_uploads_def uploads_handleModeChange uploads_handleSearch
                    uploads_selectDataset)

lemma valid_foldl: "valid_uploads m \<Longrightarrow> valid_uploads (foldl perform m acts)"
  by (induction acts arbitrary: m) (simp_all add: valid_perform)

lemma valid_constructor: "valid_uploads constructor"
  by (simp add: valid_uploads_def constructor_def)

lemma valid_after_actions: "valid_uploads (after_actions acts)"
  unfolding after_actions_def by (rule valid_foldl[OF valid_constructor])

lemma valid_uploads_names:
  "valid_uploads m \<Longrightarrow> f \<in> set (uploadedFiles m) \<Longrightarrow>
   \<exists>stem ext. name f = stem @ ext \<and> toLowerCase ext \<in> set allowedTypes"
  unfolding valid_uploads_def list_all_iff isValidFileType_iff by blast

text \<open>
  Claim C9. Every file stored in \<^verbatim>\<open>uploadedFiles\<close> has a name that ends, without
  regard to case, in one of \<^verbatim>\<open>.csv\<close>, \<^verbatim>\<open>.pdf\<close>, \<^verbatim>\<open>.docx\<close>, \<^verbatim>\<open>.xlsx\<close>: this
  holds of the manager after any sequence of the user's actions, it is kept by each of
  \<^verbatim>\<open>handleFileSelect\<close>, \<^verbatim>\<open>removeFile\<close> and \<^verbatim>\<open>clearAll\<close>, and it means that the
  name splits into a stem and an ending whose lower-case form is one of the four
  extensions.
\<close>

theorem uploadedFiles_only_supported:
  "valid_uploads (after_actions acts)
   \<and> (valid_uploads m \<longrightarrow>
        valid_uploads (fst (handleFileSelect fs m))
        \<and> valid_uploads (fst (removeFile index m))
        \<and> valid_uploads (fst (clearAll m)))
   \<and> (valid_uploads m \<longrightarrow>
        (\<forall>f \<in> set (uploadedFiles m).
           \<exists>stem ext. name f = stem @ ext \<and> toLowerCase ext \<in> set allowedTypes))"
proof (intro conjI impI ballI)
  show "valid_uploads (after_actions acts)"
    by (rule valid_after_actions)
next
  assume "valid_uploads m"
  then show "valid_uploads (fst (handleFileSelect fs m))" by (rule valid_handleFileSelect)
next
  assume "valid_uploads m"
  then show "valid_uploads (fst (removeFile index m))" by (rule valid_removeFile)
next
  show "valid_uploads (fst (clearAll m))" by (rule valid_clearAll)
next
  fix f assume "valid_uploads m" "f \<in> set (uploadedFiles m)"
  then show "\<exists>stem ext. name f = stem @ ext \<and> toLowerCase ext \<in> set allowedTypes"
    by (rule valid_uploads_names)
qed

lemma sample_upload: "uploadedFiles (after_actions [SelectFiles sample_files]) = [sample_csv]"
  by code_simp

theorem uploadedFiles_only_supported_witness:
  "uploadedFiles (after_actions [SelectFiles sample_files]) = [sample_csv]
   \<and> valid_uploads (after_actions [SelectFiles sample_files])
   \<and> valid_uploads (fst (handleFileSelect sample_files (after_actions [SelectFiles sample_files])))
   \<and> valid_uploads (fst (removeFile 0 (after_actions [SelectFiles sample_files])))
   \<and> valid_uploads (fst (clearAll (after_actions [SelectFiles sample_files])))
   \<and> (\<exists>stem ext. name sample_csv = stem @ ext \<and> toLowerCase ext \<in> set allowedTypes)"
  using uploadedFiles_only_supported
          [of "[SelectFiles sample_files]" "after_actions [SelectFiles sample_files]"
              sample_files 0]
  by (simp add: sample_upload)

subsection \<open>Rejected uploads\<close>

lemma suffix_last: "suffix a n \<Longrightarrow> a \<noteq> [] \<Longrightarrow> last n = last a"
  by (auto simp: suffix_def)

lemma txt_not_supported:
  "suffix ''.txt'' (toLowerCase (name f)) \<Longrightarrow> \<not> isValidFileType f"
proof
  assume t: "suffix ''.txt'' (toLowerCase (name f))" and v: "isValidFileType f"
  from t have l: "last (toLowerCase (name f)) = CHR ''t''"
    using suffix_last[of "''.txt''" "toLowerCase (name f)"] by simp
  from v obtain a where a: "a \<in> set allowedTypes" "suffix a (toLowerCase (name f))"
    by (auto simp: isValidFileType_def Let_def list_ex_iff)
  from a(1) have "a \<noteq> [] \<and> last a \<noteq> CHR ''t''"
    by (auto simp: allowedTypes_def)
  with suffix_last[OF a(2)] l show False by simp
qed

lemma join_contains: "x \<in> set xs \<Longrightarrow> \<exists>pre post. join sep xs = pre @ x @ post"
proof (induction sep xs rule: join.induct)
  case (1 sep)
  then show ?case by simp
next
  case (2 sep y)
  then have "join sep [y] = [] @ x @ []" by simp
  then show ?case by blast
next
  case (3 sep y z zs)
  show ?case
  proof (cases "x = y")
    case True
    then have "join sep (y # z # zs) = [] @ x @ (sep @ join sep (z # zs))" by simp
    then show ?thesis by blast
  next
    case False
    with 3 obtain pre post where "join sep (z # zs) = pre @ x @ post" by auto
    then have "join sep (y # z # zs) = (y @ sep @ pre) @ x @ post" by simp
    then show ?thesis by blast
  qed
qed

lemma handleFileSelect_alert:
  "f \<in> set fs \<Longrightarrow> \<not> isValidFileType f \<Longrightarrow>
   Alert (unsupported_message (filter (\<lambda>f. \<not> isValidFileType f) fs))
     \<in> set (snd (handleFileSelect fs m))"
proof -
  assume "f \<in> set fs" "\<not> isValidFileType f"
  then have "filter (\<lambda>f. \<not> isValidFileType f) fs \<noteq> []"
    by (auto simp: filter_empty_conv)
  then show ?thesis by (simp add: handleFileSelect_def Let_def)
qed

lemma unsupported_message_lists:
  "f \<in> set invalidFiles \<Longrightarrow>
   \<exists>pre post. unsupported_message invalidFiles = pre @ name f @ post"
proof -
  assume "f \<in> set invalidFiles"
  then have "name f \<in> set (map name invalidFiles)" by simp
  then obtain pre post where "join '', '' (map name invalidFiles) = pre @ name f @ post"
    using join_contains by blast
  then have "unsupported_message invalidFiles =
      (''The following files are not supported: '' @ pre) @ name f @
      (post @ [CHR 0x0A, CHR 0x0A]
         @ ''Supported formats: CSV, PDF, Word (.docx), Excel (.xlsx)'')"
    by (simp add: unsupported_message_def)
  then show ?thesis by blast
qed

lemma handleFileSelect_no_fetch: "\<not> list_ex is_fetch (snd (handleFileSelect fs m))"
  by (simp add: handleFileSelect_def Let_def renderUploadedFiles_def is_fetch_def)

lemma handleSearch_fetch_body:
  "Fetch meth url body \<in> set (snd (handleSearch v r m)) \<Longrightarrow>
   set body \<subseteq> set (uploadedFiles m)"
  by (auto simp: handleSearch_def handleSearchWithFiles_def handleSearchWithKeyword_def Let_def
                 renderAvailableDatasets_def split: if_splits reply.splits)

lemma invalid_never_posted:
  "\<not> isValidFileType f \<Longrightarrow>
   Fetch meth url body \<in> set (snd (handleSearch v r (after_actions acts))) \<Longrightarrow> f \<notin> set body"
proof
  assume inv: "\<not> isValidFileType f"
    and req: "Fetch meth url body \<in> set (snd (handleSearch v r (after_actions acts)))"
    and mem: "f \<in> set body"
  from req have "set body \<subseteq> set (uploadedFiles (after_actions acts))"
    by (rule handleSearch_fetch_body)
  with mem have "f \<in> set (uploadedFiles (after_actions acts))" by blast
  moreover have "list_all isValidFileType (uploadedFiles (after_actions acts))"
    using valid_after_actions[of acts] by (simp add: valid_uploads_def)
  ultimately show False using inv by (simp add: list_all_iff)
qed

text \<open>
  Claim C7. A selected file whose name does not end in a supported extension (the
  comparison is made on the lower-case name) is rejected by \<^verbatim>\<open>handleFileSelect\<close>: it
  is not among the files appended to \<^verbatim>\<open>uploadedFiles\<close>, the handler shows the message
  that lists the names of all offending files, among them this one, the handler issues no
  request, and no request of a later search carries the file. A name ending in
  \<^verbatim>\<open>.txt\<close> is such a name.
\<close>

theorem unsupported_upload_rejected:
  assumes "f \<in> set fs" and "\<not> isValidFileType f"
  shows "uploadedFiles (fst (handleFileSelect fs m))
           = uploadedFiles m @ filter isValidFileType fs
       \<and> f \<notin> set (filter isValidFileType fs)
       \<and> Alert (unsupported_message (filter (\<lambda>f. \<not> isValidFileType f) fs))
            \<in> set (snd (handleFileSelect fs m))
       \<and> (\<exists>pre post. unsupported_message (filter (\<lambda>f. \<not> isValidFileType f) fs)
                        = pre @ name f @ post)
       \<and> \<not> list_ex is_fetch (snd (handleFileSelect fs m))
       \<and> (\<forall>meth url body.
             Fetch meth url body \<in> set (snd (handleSearch v r (after_actions acts)))
               \<longrightarrow> f \<notin> set body)
       \<and> (\<forall>g. suffix ''.txt'' (toLowerCase (name g)) \<longrightarrow> \<not> isValidFileType g)"
proof (intro conjI allI impI)
  show "uploadedFiles (fst (handleFileSelect fs m)) = uploadedFiles m @ filter isValidFileType fs"
    by (rule handleFileSelect_uploaded)
next
  show "f \<notin> set (filter isValidFileType fs)" using assms(2) by simp
next
  show "Alert (unsupported_message (filter (\<lambda>f. \<not> isValidFileType f) fs))
          \<in> set (snd (handleFileSelect fs m))"
    using assms by (rule handleFileSelect_alert)
next
  have "f \<in> set (filter (\<lambda>f. \<not> isValidFileType f) fs)" using assms by simp
  then show "\<exists>pre post. unsupported_message (filter (\<lambda>f. \<not> isValidFileType f) fs)
                          = pre @ name f @ post"
    by (rule unsupported_message_lists)
next
  show "\<not> list_ex is_fetch (snd (handleFileSelect fs m))" by (rule handleFileSelect_no_fetch)
next
  fix meth url body
  assume "Fetch meth url body \<in> set (snd (handleSearch v r (after_actions acts)))"
  with assms(2) show "f \<notin> set body" by (rule invalid_never_posted)
next
  fix g :: File
  assume "suffix ''.txt'' (toLowerCase (name g))"
  then show "\<not> isValidFileType g" by (rule txt_not_supported)
qed

lemma sample_txt_selected: "sample_txt \<in> set sample_files"
  by (simp add: sample_files_def)

lemma sample_txt_invalid: "\<not> isValidFileType sample_txt"
  by code_simp

lemma sample_txt_message:
  "unsupported_message (filter (\<lambda>f. \<not> isValidFileType f) sample_files) =
     ''The following files are not supported: notes.txt'' @ [CHR 0x0A, CHR 0x0A]
       @ ''Supported formats: CSV, PDF, Word (.docx), Excel (.xlsx)''"
  by code_simp

lemma sample_txt_kept: "filter isValidFileType sample_files = [sample_csv]"
  by code_simp

theorem unsupported_upload_rejected_witness:
  "sample_txt \<in> set sample_files \<and> \<not> isValidFileType sample_txt
   \<and> uploadedFiles (fst (handleFileSelect sample_files constructor)) = [sample_csv]
   \<and> Alert (''The following files are not supported: notes.txt'' @ [CHR 0x0A, CHR 0x0A]
              @ ''Supported formats: CSV, PDF, Word (.docx), Excel (.xlsx)'')
        \<in> set (snd (handleFileSelect sample_files constructor))
   \<and> \<not> list_ex is_fetch (snd (handleFileSelect sample_files constructor))
   \<and> \<not> (\<exists>meth url body.
           Fetch meth url body
             \<in> set (snd (handleSearch [] NetworkFailure (after_actions [SelectFiles sample_files])))
           \<and> sample_txt \<in> set body)"
proof -
  note inst = unsupported_upload_rejected
          [OF sample_txt_selected sample_txt_invalid,
           of constructor "[]" NetworkFailure "[SelectFiles sample_files]"]
  from inst have up: "uploadedFiles (fst (handleFileSelect sample_files constructor)) = [sample_csv]"
    by (simp add: sample_txt_kept constructor_def)
  from inst have al: "Alert (unsupported_message (filter (\<lambda>f. \<not> isValidFileType f) sample_files))
        \<in> set (snd (handleFileSelect sample_files constructor))"
    by blast
  from inst have nf: "\<not> list_ex is_fetch (snd (handleFileSelect sample_files constructor))"
    by blast
  from inst have np: "\<not> (\<exists>meth url body.
           Fetch meth url body
             \<in> set (snd (handleSearch [] NetworkFailure (after_actions [SelectFiles sample_files])))
           \<and> sample_txt \<in> set body)"
    by blast
  show ?thesis
    using sample_txt_selected sample_txt_invalid up al[unfolded sample_txt_message] nf np
    by blast
qed

subsection \<open>Empty searches\<close>

lemma trim_blank: "\<forall>c \<in> set v. is_whitespace c \<Longrightarrow> trim v = []"
proof -
  assume "\<forall>c \<in> set v. is_whitespace c"
  then have blank: "dropWhile is_whitespace v = []" by (induction v) simp_all
  show ?thesis unfolding trim_def blank by simp
qed

lemma keyword_rejected:
  "\<forall>c \<in> set searchInput. is_whitespace c \<Longrightarrow>
   handleSearchWithKeyword searchInput r m = (m, [Alert ''Please enter a search keyword''])"
  by (simp add: handleSearchWithKeyword_def trim_blank)

lemma files_rejected:
  "uploadedFiles m = [] \<Longrightarrow>
   handleSearchWithFiles r m =
     (m, [Alert ''Please upload at least one file before searching for similar datasets.''])"
  by (simp add: handleSearchWithFiles_def)

text \<open>
  Claim C6. A keyword search whose term is empty or consists of white space only, and a
  file search with no uploaded file, end with a dialog and nothing else: the manager is
  unchanged and the handler's only effect is the alert, so no request is sent. The mode is
  the keyword mode whenever \<^verbatim>\<open>currentMode\<close> is not \<^verbatim>\<open>'files'\<close>.
\<close>

theorem empty_search_rejected:
  "((\<forall>c \<in> set searchInput. is_whitespace c) \<longrightarrow>
      handleSearchWithKeyword searchInput r m = (m, [Alert ''Please enter a search keyword''])
      \<and> (currentMode m \<noteq> ''files'' \<longrightarrow>
           handleSearch searchInput r m = (m, [Alert ''Please enter a search keyword''])
           \<and> \<not> list_ex is_fetch (snd (handleSearch searchInput r m))))
   \<and> (uploadedFiles m = [] \<longrightarrow>
      handleSearchWithFiles r m =
        (m, [Alert ''Please upload at least one file before searching for similar datasets.''])
      \<and> (currentMode m = ''files'' \<longrightarrow>
           handleSearch searchInput r m =
             (m, [Alert ''Please upload at least one file before searching for similar datasets.''])
           \<and> \<not> list_ex is_fetch (snd (handleSearch searchInput r m))))"
proof (intro conjI impI)
  assume b: "\<forall>c \<in> set searchInput. is_whitespace c"
  then show k: "handleSearchWithKeyword searchInput r m = (m, [Alert ''Please enter a search keyword''])"
    by (rule keyword_rejected)
  assume "currentMode m \<noteq> ''files''"
  then show h: "handleSearch searchInput r m = (m, [Alert ''Please enter a search keyword''])"
    using k by (simp add: handleSearch_def)
  show "\<not> list_ex is_fetch (snd (handleSearch searchInput r m))"
    unfolding h by (simp add: is_fetch_def)
next
  assume e: "uploadedFiles m = []"
  then show k: "handleSearchWithFiles r m =
        (m, [Alert ''Please upload at least one file before searching for similar datasets.''])"
    by (rule files_rejected)
  assume "currentMode m = ''files''"
  then show h: "handleSearch searchInput r m =
        (m, [Alert ''Please upload at least one file before searching for similar datasets.''])"
    using k by (simp add: handleSearch_def)
  show "\<not> list_ex is_fetch (snd (handleSearch searchInput r m))"
    unfolding h by (simp add: is_fetch_def)
qed

lemma sample_blank: "\<forall>c \<in> set [CHR '' '', CHR 0x09]. is_whitespace c"
  by (simp add: is_whitespace_def)

lemma sample_modes:
  "currentMode keyword_mode \<noteq> ''files'' \<and> uploadedFiles constructor = []
   \<and> currentMode constructor = ''files''"
  by (simp add: keyword_mode_def constructor_def)

theorem empty_search_rejected_witness:
  "is_whitespace (CHR '' '') \<and> is_whitespace (CHR 0x09)
   \<and> currentMode keyword_mode \<noteq> ''files''
   \<and> handleSearch [CHR '' '', CHR 0x09] NetworkFailure keyword_mode
        = (keyword_mode, [Alert ''Please enter a search keyword''])
   \<and> uploadedFiles constructor = [] \<and> currentMode constructor = ''files''
   \<and> handleSearch ''titanic'' NetworkFailure constructor
        = (constructor,
           [Alert ''Please upload at least one file before searching for similar datasets.''])"
proof -
  have ws: "is_whitespace (CHR '' '') \<and> is_whitespace (CHR 0x09)"
    by (simp add: is_whitespace_def)
  from empty_search_rejected [of "[CHR '' '', CHR 0x09]" NetworkFailure keyword_mode]
       sample_blank sample_modes
  have k: "handleSearch [CHR '' '', CHR 0x09] NetworkFailure keyword_mode
        = (keyword_mode, [Alert ''Please enter a search keyword''])"
    by blast
  from empty_search_rejected [of "''titanic''" NetworkFailure constructor] sample_modes
  have f: "handleSearch ''titanic'' NetworkFailure constructor
        = (constructor,
           [Alert ''Please upload at least one file before searching for similar datasets.''])"
    by blast
  show ?thesis using ws k f sample_modes by blast
qed


section \<open>Properties of the download client\<close>

subsection \<open>The request of a keyword search\<close>

lemma trim_titanic: "trim ''titanic'' = ''titanic''"
  by code_simp

lemma encode_titanic: "encodeURIComponent ''titanic'' = ''titanic''"
  by code_simp

lemma keyword_request:
  "trim searchInput \<noteq> [] \<Longrightarrow>
   snd (handleSearchWithKeyword searchInput r m) ! 1 =
     Fetch GET (BACKEND_URL @ ''/search-keyword?keyword='' @ encodeURIComponent (trim searchInput)) []"
  by (cases r) (simp_all add: handleSearchWithKeyword_def Let_def)

lemma keyword_request_titanic:
  "snd (handleSearchWithKeyword ''titanic'' r m) ! 1 =
     Fetch GET ''https://data-lakes-management.onrender.com/search-keyword?keyword=titanic'' []"
  using keyword_request[of "''titanic''" r m]
  by (simp add: trim_titanic encode_titanic BACKEND_URL_def)

lemma handleSearch_s_effects:
  "trim searchInput \<noteq> [] \<Longrightarrow>
   \<exists>shown. snd (handleSearch_s searchInput r m) =
     [SetInnerHTML ''availableDatasets'' LoadingDatasets,
      Fetch GET (BACKEND_URL @ ''/search?keyword='' @ encodeURIComponent (trim searchInput)) [],
      SetInnerHTML ''availableDatasets'' shown]"
  by (cases r) (simp_all add: handleSearch_s_def Let_def renderAvailableDatasets_s_def)

text \<open>
  Claim C8. The keyword search of \<^verbatim>\<open>script.js\<close> does not request
  \<^verbatim>\<open>/search-keyword\<close>: for the term \<^verbatim>\<open>titanic\<close> its one request is
  \<^verbatim>\<open>GET /search?keyword=titanic\<close> on the backend, whatever the backend answers, while
  the README documents \<^verbatim>\<open>GET /search-keyword?keyword={term}\<close> and
  \<^verbatim>\<open>handleSearchWithKeyword\<close> of the upload client requests that path
  (\<open>keyword_request_titanic\<close>).
\<close>

theorem script_keyword_search_request:
  "snd (handleSearch_s ''titanic'' r m) ! 1 =
     Fetch GET ''https://data-lakes-management.onrender.com/search?keyword=titanic'' []
   \<and> filter is_fetch (snd (handleSearch_s ''titanic'' r m)) =
       [Fetch GET ''https://data-lakes-management.onrender.com/search?keyword=titanic'' []]
   \<and> \<not> list_ex
         (\<lambda>e. e = Fetch GET
                    ''https://data-lakes-management.onrender.com/search-keyword?keyword=titanic'' [])
         (snd (handleSearch_s ''titanic'' r m))"
proof -
  have t: "trim ''titanic'' \<noteq> []" by (simp add: trim_titanic)
  obtain shown where s: "snd (handleSearch_s ''titanic'' r m) =
     [SetInnerHTML ''availableDatasets'' LoadingDatasets,
      Fetch GET (BACKEND_URL @ ''/search?keyword='' @ encodeURIComponent (trim ''titanic'')) [],
      SetInnerHTML ''availableDatasets'' shown]"
    using handleSearch_s_effects[OF t] by blast
  show ?thesis
    unfolding s by (simp add: trim_titanic encode_titanic BACKEND_URL_def is_fetch_def)
qed

subsection \<open>The download selection\<close>

lemma distinct_take_drop:
  "distinct ys \<Longrightarrow> a \<le> b \<Longrightarrow> distinct (take a ys @ drop b ys)"
proof -
  assume d: "distinct ys" and le: "a \<le> b"
  have "set (drop b ys) \<subseteq> set (drop a ys)" using le by (rule set_drop_subset_set_drop)
  moreover have "set (take a ys) \<inter> set (drop a ys) = {}"
    using d by (metis append_take_drop_id distinct_append)
  ultimately have "set (take a ys) \<inter> set (drop b ys) = {}" by blast
  then show ?thesis using d by simp
qed

lemma distinct_splice1: "distinct (map f xs) \<Longrightarrow> distinct (map f (splice1 k xs))"
  unfolding splice1_def Let_def
  by (simp only: map_append take_map[symmetric] drop_map[symmetric])
     (rule distinct_take_drop, auto)

lemma splice1_0: "splice1 0 (x # xs) = xs"
  by (simp add: splice1_def)

lemma splice1_Suc: "0 \<le> k \<Longrightarrow> splice1 (k + 1) (x # xs) = x # splice1 k xs"
  by (simp add: splice1_def Let_def nat_add_distrib min_def)

lemma find_by_id_Some: "find_by_id i av = Some d \<Longrightarrow> Num (dataset_id d) = i"
  unfolding find_by_id_def by (auto simp: find_Some_iff)

lemma findIndex_nonneg: "findIndex_by_id i ds = Inr k \<Longrightarrow> k = - 1 \<or> 0 \<le> k"
  by (induction i ds arbitrary: k rule: findIndex_by_id.induct)
     (auto split: if_splits sum.splits)

lemma findIndex_none:
  "findIndex_by_id i ds = Inr (- 1) \<Longrightarrow>
   None \<notin> set ds \<and> (\<forall>d. Some d \<in> set ds \<longrightarrow> Num (dataset_id d) \<noteq> i)"
  by (induction i ds rule: findIndex_by_id.induct)
     (auto split: if_splits sum.splits dest: findIndex_nonneg)

lemma findIndex_no_error: "None \<notin> set ds \<Longrightarrow> findIndex_by_id i ds \<noteq> Inl e"
  by (induction i ds rule: findIndex_by_id.induct) (auto split: sum.splits)

lemma findIndex_splice:
  "findIndex_by_id (Num n) ds = Inr k \<Longrightarrow> k \<noteq> - 1 \<Longrightarrow> distinct (map entry_id ds) \<Longrightarrow>
   splice1 k ds = filter (\<lambda>e. entry_id e \<noteq> Some n) ds"
proof (induction "Num n" ds arbitrary: k rule: findIndex_by_id.induct)
  case 1
  then show ?case by simp
next
  case (2 ds)
  then show ?case by simp
next
  case (3 d ds)
  show ?case
  proof (cases "dataset_id d = n")
    case True
    then have k: "k = 0" using "3.prems"(1) by simp
    have nd: "entry_id (Some d) = Some n" using True by (simp add: entry_id_def)
    have "entry_id (Some d) \<notin> entry_id ` set ds" using "3.prems"(3) by simp
    then have "\<forall>e \<in> set ds. entry_id e \<noteq> Some n" unfolding nd by (metis image_eqI)
    then have "filter (\<lambda>e. entry_id e \<noteq> Some n) ds = ds" by (simp add: filter_id_conv)
    then show ?thesis using True k by (simp add: splice1_0 entry_id_def)
  next
    case False
    then obtain j where j: "findIndex_by_id (Num n) ds = Inr j"
        "k = (if j = - 1 then - 1 else j + 1)"
      using "3.prems"(1) by (auto split: sum.splits)
    then have jn: "j \<noteq> - 1" using "3.prems"(2) by auto
    then have j0: "0 \<le> j" using findIndex_nonneg[OF j(1)] by simp
    have "splice1 j ds = filter (\<lambda>e. entry_id e \<noteq> Some n) ds"
      using "3.hyps"[OF _ j(1) jn] False "3.prems"(3) by simp
    then show ?thesis using False j jn j0 by (simp add: splice1_Suc entry_id_def)
  qed
qed

lemma filter_other_ids_Inr:
  "filter_other_ids i ds = Inr kept \<Longrightarrow>
   kept = filter (\<lambda>e. case e of None \<Rightarrow> False | Some d \<Rightarrow> Num (dataset_id d) \<noteq> i) ds"
  by (induction i ds arbitrary: kept rule: filter_other_ids.induct)
     (auto split: sum.splits if_splits)

lemma new_entry_fresh:
  assumes "findIndex_by_id i ds = Inr (- 1)"
  shows "entry_id (find_by_id i av) \<notin> entry_id ` set ds"
proof
  from assms have no: "None \<notin> set ds" "\<forall>d. Some d \<in> set ds \<longrightarrow> Num (dataset_id d) \<noteq> i"
    using findIndex_none by blast+
  assume "entry_id (find_by_id i av) \<in> entry_id ` set ds"
  then obtain e where e: "e \<in> set ds" "entry_id e = entry_id (find_by_id i av)"
    by auto
  have "e \<noteq> None" using e(1) no(1) by metis
  then obtain d where d: "e = Some d" by auto
  with e(2) obtain d' where d': "find_by_id i av = Some d'" "dataset_id d' = dataset_id d"
    by (cases "find_by_id i av") (auto simp: entry_id_def)
  from find_by_id_Some[OF d'(1)] d'(2) have "Num (dataset_id d) = i" by simp
  with no(2) e(1) d show False by blast
qed

lemma unique_toggle: "unique_ids m \<Longrightarrow> unique_ids (fst (toggleDatasetSelection i m))"
proof -
  assume u: "unique_ids m"
  show ?thesis
  proof (cases "findIndex_by_id i (downloadDatasets m)")
    case (Inl e)
    then show ?thesis using u by (simp add: toggleDatasetSelection_def)
  next
    case (Inr k)
    show ?thesis
    proof (cases "k = - 1")
      case False
      then show ?thesis using u Inr
        by (simp add: toggleDatasetSelection_def unique_ids_def Let_def distinct_splice1)
    next
      case True
      with Inr have "entry_id (find_by_id i (availableDatasets_s m))
                       \<notin> entry_id ` set (downloadDatasets m)"
        using new_entry_fresh by blast
      then show ?thesis using u Inr True
        by (simp add: toggleDatasetSelection_def unique_ids_def Let_def)
    qed
  qed
qed

lemma unique_add: "unique_ids m \<Longrightarrow> unique_ids (fst (addToDownloadList i m))"
proof -
  assume u: "unique_ids m"
  show ?thesis
  proof (cases "find_by_id i (availableDatasets_s m)")
    case None
    then show ?thesis using u by (simp add: addToDownloadList_def)
  next
    case (Some d)
    show ?thesis
    proof (cases "findIndex_by_id i (downloadDatasets m)")
      case (Inl e)
      then show ?thesis using u Some by (simp add: addToDownloadList_def)
    next
      case (Inr k)
      show ?thesis
      proof (cases "k = - 1")
        case False
        then show ?thesis using u Some Inr by (simp add: addToDownloadList_def Let_def)
      next
        case True
        with Inr have "entry_id (find_by_id i (availableDatasets_s m))
                         \<notin> entry_id ` set (downloadDatasets m)"
          using new_entry_fresh by blast
        then show ?thesis using u Some Inr True
          by (simp add: addToDownloadList_def unique_ids_def Let_def)
      qed
    qed
  qed
qed

lemma unique_remove: "unique_ids m \<Longrightarrow> unique_ids (fst (removeFromDownloadList i m))"
  by (cases "filter_other_ids i (downloadDatasets m)")
     (auto simp: removeFromDownloadList_def unique_ids_def distinct_map_filter
           dest!: filter_other_ids_Inr)

lemma unique_clear: "unique_ids (fst (clearAll_s m))"
  by (simp add: clearAll_s_def unique_ids_def)

lemma downloads_handleSearch_s:
  "downloadDatasets (fst (handleSearch_s v r m)) = downloadDatasets m"
  by (simp add: handleSearch_s_def Let_def split: reply.splits)

lemma unique_perform: "unique_ids m \<Longrightarrow> unique_ids (perform_s m a)"
  by (cases a)
     (simp_all add: unique_toggle unique_add unique_remove unique_clear,
      simp add: unique_ids_def downloads_handleSearch_s)

lemma unique_foldl: "unique_ids m \<Longrightarrow> unique_ids (foldl perform_s m acts)"
  by (induction acts arbitrary: m) (simp_all add: unique_perform)

lemma unique_constructor: "unique_ids constructor_s"
  by (simp add: unique_ids_def constructor_s_def)

lemma selected_entry:
  "Some n \<in> entry_id ` set ds \<Longrightarrow> \<exists>d. Some d \<in> set ds \<and> dataset_id d = n"
proof -
  assume "Some n \<in> entry_id ` set ds"
  then obtain e where e: "e \<in> set ds" "entry_id e = Some n" by (metis imageE)
  then show ?thesis by (cases e) (auto simp: entry_id_def)
qed

lemma add_selected_unchanged:
  "Some n \<in> entry_id ` set (downloadDatasets m) \<Longrightarrow>
   downloadDatasets (fst (addToDownloadList (Num n) m)) = downloadDatasets m"
proof -
  assume sel: "Some n \<in> entry_id ` set (downloadDatasets m)"
  then obtain d where d: "Some d \<in> set (downloadDatasets m)" "dataset_id d = n"
    using selected_entry by blast
  have "findIndex_by_id (Num n) (downloadDatasets m) \<noteq> Inr (- 1)"
    using findIndex_none[of "Num n" "downloadDatasets m"] d by auto
  then show ?thesis
    by (auto simp: addToDownloadList_def Let_def split: option.splits sum.splits)
qed

lemma toggle_selected_removes:
  "unique_ids m \<Longrightarrow> None \<notin> set (downloadDatasets m) \<Longrightarrow>
   Some n \<in> entry_id ` set (downloadDatasets m) \<Longrightarrow>
   downloadDatasets (fst (toggleDatasetSelection (Num n) m))
     = filter (\<lambda>e. entry_id e \<noteq> Some n) (downloadDatasets m)"
proof -
  assume u: "unique_ids m" and nn: "None \<notin> set (downloadDatasets m)"
    and sel: "Some n \<in> entry_id ` set (downloadDatasets m)"
  have noerr: "\<And>e. findIndex_by_id (Num n) (downloadDatasets m) \<noteq> Inl e"
    using nn by (rule findIndex_no_error)
  obtain d where d: "Some d \<in> set (downloadDatasets m)" "dataset_id d = n"
    using sel selected_entry by blast
  have no1: "findIndex_by_id (Num n) (downloadDatasets m) \<noteq> Inr (- 1)"
    using findIndex_none[of "Num n" "downloadDatasets m"] d by auto
  obtain k where k: "findIndex_by_id (Num n) (downloadDatasets m) = Inr k" "k \<noteq> - 1"
    using noerr no1 by (cases "findIndex_by_id (Num n) (downloadDatasets m)") auto
  show ?thesis
    using k findIndex_splice[OF k(1) k(2)] u
    by (simp add: toggleDatasetSelection_def Let_def unique_ids_def)
qed

text \<open>
  Claim C10. \<^verbatim>\<open>downloadDatasets\<close> never holds two entries with the same \<^verbatim>\<open>id\<close>
  (nor two \<^verbatim>\<open>undefined\<close> entries): this holds after any sequence of the user's
  actions and is kept by each of \<^verbatim>\<open>toggleDatasetSelection\<close>,
  \<^verbatim>\<open>addToDownloadList\<close>, \<^verbatim>\<open>removeFromDownloadList\<close> and \<^verbatim>\<open>clearAll\<close>, whether the
  handler returns or throws. Adding an id that is already selected leaves the list as it
  is, and toggling it removes its entry.
\<close>

theorem download_ids_unique:
  "unique_ids (after_actions_s acts)
   \<and> (unique_ids m \<longrightarrow>
        unique_ids (fst (toggleDatasetSelection datasetId m))
        \<and> unique_ids (fst (addToDownloadList datasetId m))
        \<and> unique_ids (fst (removeFromDownloadList datasetId m))
        \<and> unique_ids (fst (clearAll_s m)))
   \<and> (Some n \<in> entry_id ` set (downloadDatasets m) \<longrightarrow>
        downloadDatasets (fst (addToDownloadList (Num n) m)) = downloadDatasets m)
   \<and> (unique_ids m \<and> None \<notin> set (downloadDatasets m)
        \<and> Some n \<in> entry_id ` set (downloadDatasets m) \<longrightarrow>
        downloadDatasets (fst (toggleDatasetSelection (Num n) m))
          = filter (\<lambda>e. entry_id e \<noteq> Some n) (downloadDatasets m))"
proof (intro conjI impI)
  show "unique_ids (after_actions_s acts)"
    unfolding after_actions_s_def by (rule unique_foldl[OF unique_constructor])
next
  assume "unique_ids m"
  then show "unique_ids (fst (toggleDatasetSelection datasetId m))" by (rule unique_toggle)
next
  assume "unique_ids m"
  then show "unique_ids (fst (addToDownloadList datasetId m))" by (rule unique_add)
next
  assume "unique_ids m"
  then show "unique_ids (fst (removeFromDownloadList datasetId m))" by (rule unique_remove)
next
  show "unique_ids (fst (clearAll_s m))" by (rule unique_clear)
next
  assume "Some n \<in> entry_id ` set (downloadDatasets m)"
  then show "downloadDatasets (fst (addToDownloadList (Num n) m)) = downloadDatasets m"
    by (rule add_selected_unchanged)
next
  assume "unique_ids m \<and> None \<notin> set (downloadDatasets m)
          \<and> Some n \<in> entry_id ` set (downloadDatasets m)"
  then show "downloadDatasets (fst (toggleDatasetSelection (Num n) m))
          = filter (\<lambda>e. entry_id e \<noteq> Some n) (downloadDatasets m)"
    by (simp add: toggle_selected_removes)
qed

lemma sample_unique: "unique_ids sample_selection"
  by (simp add: sample_selection_def unique_ids_def)

lemma sample_defined: "None \<notin> set (downloadDatasets sample_selection)"
  by (simp add: sample_selection_def)

lemma sample_selected: "Some 1 \<in> entry_id ` set (downloadDatasets sample_selection)"
  by (simp add: sample_selection_def entry_id_def sample_dataset_def)

lemma sample_downloads: "downloadDatasets sample_selection = [Some (sample_dataset 1)]"
  by (simp add: sample_selection_def)

lemma sample_others:
  "filter (\<lambda>e. entry_id e \<noteq> Some 1) (downloadDatasets sample_selection) = []"
  by (simp add: sample_selection_def entry_id_def sample_dataset_def)

theorem download_ids_unique_witness:
  "unique_ids sample_selection \<and> None \<notin> set (downloadDatasets sample_selection)
   \<and> Some 1 \<in> entry_id ` set (downloadDatasets sample_selection)
   \<and> unique_ids (fst (toggleDatasetSelection (Num 2) sample_selection))
   \<and> unique_ids (fst (addToDownloadList (Num 2) sample_selection))
   \<and> unique_ids (fst (removeFromDownloadList (Num 2) sample_selection))
   \<and> unique_ids (fst (clearAll_s sample_selection))
   \<and> downloadDatasets (fst (addToDownloadList (Num 1) sample_selection))
        = [Some (sample_dataset 1)]
   \<and> downloadDatasets (fst (toggleDatasetSelection (Num 1) sample_selection)) = []"
proof -
  note inst = download_ids_unique [of "[]" sample_selection "Num 2" 1]
  from inst sample_unique
  have kept: "unique_ids (fst (toggleDatasetSelection (Num 2) sample_selection))
      \<and> unique_ids (fst (addToDownloadList (Num 2) sample_selection))
      \<and> unique_ids (fst (removeFromDownloadList (Num 2) sample_selection))
      \<and> unique_ids (fst (clearAll_s sample_selection))"
    by blast
  from inst sample_selected
  have added: "downloadDatasets (fst (addToDownloadList (Num 1) sample_selection))
      = downloadDatasets sample_selection"
    by blast
  from inst sample_unique sample_defined sample_selected
  have toggled: "downloadDatasets (fst (toggleDatasetSelection (Num 1) sample_selection))
      = filter (\<lambda>e. entry_id e \<noteq> Some 1) (downloadDatasets sample_selection)"
    by blast
  show ?thesis
    using kept added[unfolded sample_downloads] toggled[unfolded sample_others]
          sample_unique sample_defined sample_selected
    by blast
qed


section \<open>Properties of the rate-limited fetcher\<close>

lemma attempt_success:
  "api issued = Success recs \<Longrightarrow>
   attempt cfg api issued made st now =
     (Records recs, on_success cfg (now + spacing_wait cfg st now) st,
      now + spacing_wait cfg st now,
      spacing_events cfg st now @ [Call (now + spacing_wait cfg st now)])"
  by (subst attempt.simps) (simp add: Let_def)

lemma attempt_exhausted:
  "is_failure (api issued) \<Longrightarrow> \<not> made + 1 < maxRetries cfg \<Longrightarrow>
   attempt cfg api issued made st now =
     (TerminalError, on_failure cfg st, now + spacing_wait cfg st now,
      spacing_events cfg st now @ [Call (now + spacing_wait cfg st now)])"
  by (subst attempt.simps) (simp add: Let_def is_failure_def split: response.splits)

lemma attempt_retry:
  "is_failure (api issued) \<Longrightarrow> made + 1 < maxRetries cfg \<Longrightarrow>
   attempt cfg api issued made st now =
     (let t = now + spacing_wait cfg st now;
          st' = on_failure cfg st;
          res = attempt cfg api (issued + 1) (made + 1) st' (t + currentBackoffDelay st')
      in (fst res, fst (snd res), fst (snd (snd res)),
          spacing_events cfg st now @ [Call t] @ [Backoff (currentBackoffDelay st')]
            @ snd (snd (snd res))))"
  by (subst attempt.simps)
     (simp add: Let_def is_failure_def split: response.splits prod.splits)

lemma not_failure: "\<not> is_failure r \<Longrightarrow> \<exists>recs. r = Success recs"
  by (cases r) (simp_all add: is_failure_def)


lemma calls_append: "calls (xs @ ys) = calls xs @ calls ys"
  by (induction xs rule: calls.induct) simp_all

lemma backoffs_append: "backoffs (xs @ ys) = backoffs xs @ backoffs ys"
  by (induction xs rule: backoffs.induct) simp_all

lemma calls_spacing: "calls (spacing_events cfg st now) = []"
  by (simp add: spacing_events_def)

lemma backoffs_spacing: "backoffs (spacing_events cfg st now) = []"
  by (simp add: spacing_events_def)

lemma events_start:
  "\<exists>t rest. events_of (attempt cfg api issued made st now)
              = spacing_events cfg st now @ Call t # rest"
proof (cases "is_failure (api issued)")
  case False
  then obtain recs where "api issued = Success recs"
    using not_failure by blast
  then show ?thesis by (simp add: attempt_success events_of_def)
next
  case True
  show ?thesis
  proof (cases "made + 1 < maxRetries cfg")
    case True
    with \<open>is_failure (api issued)\<close> show ?thesis
      by (simp add: attempt_retry events_of_def Let_def)
  next
    case False
    with \<open>is_failure (api issued)\<close> show ?thesis
      by (simp add: attempt_exhausted events_of_def)
  qed
qed


lemma calls_nonempty: "calls (events_of (attempt cfg api issued made st now)) \<noteq> []"
proof -
  obtain t rest where "events_of (attempt cfg api issued made st now)
                         = spacing_events cfg st now @ Call t # rest"
    using events_start by blast
  then show ?thesis by (simp add: calls_append calls_spacing)
qed

lemma on_failure_count:
  "consecutiveFailureCount (on_failure cfg st) = consecutiveFailureCount st + 1"
  by (simp add: on_failure_def Let_def)

lemma on_failure_backoff:
  "currentBackoffDelay (on_failure cfg st)
     = min (baseDelay cfg * 2 ^ (consecutiveFailureCount st + 1)) (maxDelay cfg)"
  by (simp add: on_failure_def Let_def)

lemma retry_events:
  "is_failure (api issued) \<Longrightarrow> made + 1 < maxRetries cfg \<Longrightarrow>
   events_of (attempt cfg api issued made st now)
     = spacing_events cfg st now @ Call (now + spacing_wait cfg st now)
         # Backoff (currentBackoffDelay (on_failure cfg st))
         # events_of (attempt cfg api (issued + 1) (made + 1) (on_failure cfg st)
                        (now + spacing_wait cfg st now
                           + currentBackoffDelay (on_failure cfg st)))"
  by (simp add: attempt_retry events_of_def Let_def)

lemma retry_outcome:
  "is_failure (api issued) \<Longrightarrow> made + 1 < maxRetries cfg \<Longrightarrow>
   outcome_of (attempt cfg api issued made st now)
     = outcome_of (attempt cfg api (issued + 1) (made + 1) (on_failure cfg st)
                     (now + spacing_wait cfg st now
                        + currentBackoffDelay (on_failure cfg st)))"
  by (simp add: attempt_retry outcome_of_def Let_def)

lemma retry_state:
  "is_failure (api issued) \<Longrightarrow> made + 1 < maxRetries cfg \<Longrightarrow>
   state_of (attempt cfg api issued made st now)
     = state_of (attempt cfg api (issued + 1) (made + 1) (on_failure cfg st)
                   (now + spacing_wait cfg st now
                      + currentBackoffDelay (on_failure cfg st)))"
  by (simp add: attempt_retry state_of_def Let_def)





lemma sample_limits:
  "(2::nat) < maxRetries sample_config \<and> consecutiveFailureCount sample_state = 0
   \<and> baseDelay sample_config = 10 \<and> maxDelay sample_config = 60"
  by (simp add: sample_config_def sample_state_def)


lemma all_failures:
  "(\<forall>i < max 1 (maxRetries cfg - made). is_failure (api (issued + i))) \<Longrightarrow>
   outcome_of (attempt cfg api issued made st now) = TerminalError
   \<and> length (calls (events_of (attempt cfg api issued made st now)))
       = max 1 (maxRetries cfg - made)
   \<and> length (backoffs (events_of (attempt cfg api issued made st now)))
       = max 1 (maxRetries cfg - made) - 1"
proof (induction "maxRetries cfg - made" arbitrary: issued made st now rule: less_induct)
  case less
  have f0: "is_failure (api issued)"
    using less.prems by (metis add.right_neutral max.strict_coboundedI1 zero_less_one)
  show ?case
  proof (cases "made + 1 < maxRetries cfg")
    case False
    then have "max 1 (maxRetries cfg - made) = 1" by (auto simp: max_def)
    with f0 False show ?thesis
      by (simp add: attempt_exhausted outcome_of_def events_of_def calls_append
                    backoffs_append calls_spacing backoffs_spacing)
  next
    case True
    let ?t = "now + spacing_wait cfg st now"
    let ?st = "on_failure cfg st"
    let ?rec = "attempt cfg api (issued + 1) (made + 1) ?st (?t + currentBackoffDelay ?st)"
    have m: "max 1 (maxRetries cfg - made) = maxRetries cfg - made"
      using True by (auto simp: max_def)
    have m': "max 1 (maxRetries cfg - (made + 1)) = maxRetries cfg - (made + 1)"
      using True by (auto simp: max_def)
    have smaller: "maxRetries cfg - (made + 1) < maxRetries cfg - made" using True by simp
    have fs: "\<forall>i < max 1 (maxRetries cfg - (made + 1)). is_failure (api ((issued + 1) + i))"
    proof (intro allI impI)
      fix i assume "i < max 1 (maxRetries cfg - (made + 1))"
      then have "Suc i < max 1 (maxRetries cfg - made)" using True m m' by simp
      then have "is_failure (api (issued + Suc i))" using less.prems by blast
      then show "is_failure (api ((issued + 1) + i))" by simp
    qed
    have IH: "outcome_of ?rec = TerminalError
       \<and> length (calls (events_of ?rec)) = max 1 (maxRetries cfg - (made + 1))
       \<and> length (backoffs (events_of ?rec)) = max 1 (maxRetries cfg - (made + 1)) - 1"
      using less.hyps[OF smaller fs] .
    note ev = retry_events[where api = api and issued = issued and st = st and now = now,
                           OF f0 True]
    note out = retry_outcome[where api = api and issued = issued and st = st and now = now,
                             OF f0 True]
    show ?thesis
      using IH True
      by (auto simp add: ev out m m' calls_append backoffs_append calls_spacing
                         backoffs_spacing)
  qed
qed

text \<open>
  Claim C2. A request whose every attempt is answered by a throttling response (or a
  transient failure) stops retrying and ends with the terminal error when the maximum
  count is reached: it issues \<^verbatim>\<open>maxRetries\<close> attempts (one, if the maximum is 0) and
  no further one. With \<^verbatim>\<open>maxRetries = 3\<close> and four consecutive throttling responses the
  request fails after its third attempt, having waited two backoff delays, and a fourth
  attempt is not issued.
\<close>

theorem retries_exhausted:
  assumes "\<forall>i \<le> maxRetries cfg. is_failure (api (issued + i))"
  shows "outcome_of (fetch cfg api issued st now) = TerminalError
       \<and> length (calls (events_of (fetch cfg api issued st now))) = max 1 (maxRetries cfg)
       \<and> (0 < maxRetries cfg \<longrightarrow>
            length (calls (events_of (fetch cfg api issued st now))) = maxRetries cfg)
       \<and> (maxRetries cfg = 3 \<longrightarrow>
            length (calls (events_of (fetch cfg api issued st now))) = 3
            \<and> length (backoffs (events_of (fetch cfg api issued st now))) = 2)"
proof -
  have "\<forall>i < max 1 (maxRetries cfg - 0). is_failure (api (issued + i))"
  proof (intro allI impI)
    fix i assume "i < max 1 (maxRetries cfg - 0)"
    then have "i \<le> maxRetries cfg" by (cases "maxRetries cfg") (simp_all add: max_def)
    with assms show "is_failure (api (issued + i))" by blast
  qed
  then have "outcome_of (attempt cfg api issued 0 st now) = TerminalError
     \<and> length (calls (events_of (attempt cfg api issued 0 st now)))
         = max 1 (maxRetries cfg - 0)
     \<and> length (backoffs (events_of (attempt cfg api issued 0 st now)))
         = max 1 (maxRetries cfg - 0) - 1"
    by (rule all_failures)
  then show ?thesis by (auto simp add: fetch_def max_def)
qed

lemma sample_all_throttled: "\<forall>i \<le> maxRetries sample_config. is_failure (always_throttled (0 + i))"
  by (simp add: always_throttled_def is_failure_def)

lemma sample_throttled_events:
  "events_of (fetch sample_config always_throttled 0 sample_state 100)
     = [Call 100, Backoff 20, Call 120, Backoff 40, Call 160]"
  by code_simp

theorem retries_exhausted_witness:
  "maxRetries sample_config = 3
   \<and> is_failure (always_throttled 0) \<and> is_failure (always_throttled 1)
   \<and> is_failure (always_throttled 2) \<and> is_failure (always_throttled 3)
   \<and> outcome_of (fetch sample_config always_throttled 0 sample_state 100) = TerminalError
   \<and> length (calls (events_of (fetch sample_config always_throttled 0 sample_state 100))) = 3
   \<and> length (backoffs (events_of (fetch sample_config always_throttled 0 sample_state 100))) = 2
   \<and> events_of (fetch sample_config always_throttled 0 sample_state 100)
        = [Call 100, Backoff 20, Call 120, Backoff 40, Call 160]"
proof -
  have m: "maxRetries sample_config = 3" by (simp add: sample_config_def)
  have fs: "is_failure (always_throttled 0) \<and> is_failure (always_throttled 1)
            \<and> is_failure (always_throttled 2) \<and> is_failure (always_throttled 3)"
    by (simp add: always_throttled_def is_failure_def)
  from retries_exhausted [OF sample_all_throttled, of sample_state 100] m
  have "outcome_of (fetch sample_config always_throttled 0 sample_state 100) = TerminalError
     \<and> length (calls (events_of (fetch sample_config always_throttled 0 sample_state 100))) = 3
     \<and> length (backoffs (events_of (fetch sample_config always_throttled 0 sample_state 100)))
         = 2"
    by blast
  then show ?thesis using fs m sample_throttled_events by blast
qed

lemma on_failure_mono:
  "currentBackoffDelay (on_failure cfg st)
     \<le> currentBackoffDelay (on_failure cfg (on_failure cfg st))"
  by (simp add: on_failure_backoff on_failure_count min_le_iff_disj)

lemma after_calls_snoc:
  "after_calls cfg st (answered @ [p]) = handle_response cfg (after_calls cfg st answered) p"
  by (simp add: after_calls_def)

lemma after_calls_snoc2:
  "after_calls cfg st (answered @ [p, q])
     = handle_response cfg (handle_response cfg (after_calls cfg st answered) p) q"
  by (simp add: after_calls_def)

lemma attempt_state:
  "\<exists>answered. state_of (attempt cfg api issued made st now) = after_calls cfg st answered
     \<and> map snd answered = map api [issued ..< issued + length answered]
     \<and> map fst answered = calls (events_of (attempt cfg api issued made st now))"
proof (induction "maxRetries cfg - made" arbitrary: issued made st now rule: less_induct)
  case less
  let ?t = "now + spacing_wait cfg st now"
  show ?case
  proof (cases "is_failure (api issued)")
    case False
    then obtain recs where s: "api issued = Success recs"
      using not_failure by blast
    then show ?thesis using False
      by (intro exI[of _ "[(?t, api issued)]"])
         (simp add: attempt_success state_of_def events_of_def after_calls_def
                    handle_response_def calls_append calls_spacing)
  next
    case True
    show ?thesis
    proof (cases "made + 1 < maxRetries cfg")
      case False
      with True have "attempt cfg api issued made st now
          = (TerminalError, on_failure cfg st, ?t, spacing_events cfg st now @ [Call ?t])"
        by (simp add: attempt_exhausted)
      then show ?thesis using True
        by (intro exI[of _ "[(?t, api issued)]"])
           (simp add: state_of_def events_of_def after_calls_def handle_response_def
                      calls_append calls_spacing)
    next
      case r: True
      let ?st = "on_failure cfg st"
      let ?rec = "attempt cfg api (issued + 1) (made + 1) ?st (?t + currentBackoffDelay ?st)"
      have smaller: "maxRetries cfg - (made + 1) < maxRetries cfg - made" using r by simp
      obtain answered where a: "state_of ?rec = after_calls cfg ?st answered"
         "map snd answered = map api [issued + 1 ..< issued + 1 + length answered]"
         "map fst answered = calls (events_of ?rec)"
        using less.hyps[OF smaller] by blast
      note ev = retry_events[where api = api and issued = issued and st = st and now = now,
                             OF True r]
      note stq = retry_state[where api = api and issued = issued and st = st and now = now,
                             OF True r]
      have "[issued ..< issued + length ((?t, api issued) # answered)]
              = issued # [issued + 1 ..< issued + 1 + length answered]"
        by (simp add: upt_rec)
      then show ?thesis using a True
        by (intro exI[of _ "(?t, api issued) # answered"])
           (simp add: ev stq after_calls_def handle_response_def calls_append calls_spacing)
    qed
  qed
qed

lemma attempt_records_state:
  "outcome_of (attempt cfg api issued made st now) = Records recs \<Longrightarrow>
   consecutiveFailureCount (state_of (attempt cfg api issued made st now)) = 0
   \<and> currentBackoffDelay (state_of (attempt cfg api issued made st now)) = baseDelay cfg
   \<and> lastCallTimestamp (state_of (attempt cfg api issued made st now))
       = last (calls (events_of (attempt cfg api issued made st now)))"
proof (induction "maxRetries cfg - made" arbitrary: issued made st now rule: less_induct)
  case less
  show ?case
  proof (cases "is_failure (api issued)")
    case False
    then obtain rs where "api issued = Success rs" using not_failure by blast
    then show ?thesis
      by (simp add: attempt_success state_of_def events_of_def on_success_def
                    calls_append calls_spacing)
  next
    case True
    show ?thesis
    proof (cases "made + 1 < maxRetries cfg")
      case False
      with True less.prems show ?thesis by (simp add: attempt_exhausted outcome_of_def)
    next
      case r: True
      let ?t = "now + spacing_wait cfg st now"
      let ?st = "on_failure cfg st"
      let ?rec = "attempt cfg api (issued + 1) (made + 1) ?st (?t + currentBackoffDelay ?st)"
      have smaller: "maxRetries cfg - (made + 1) < maxRetries cfg - made" using r by simp
      note ev = retry_events[where api = api and issued = issued and st = st and now = now,
                             OF True r]
      note out = retry_outcome[where api = api and issued = issued and st = st and now = now,
                               OF True r]
      note stq = retry_state[where api = api and issued = issued and st = st and now = now,
                             OF True r]
      have "outcome_of ?rec = Records recs" using less.prems out by simp
      from less.hyps[OF smaller this] calls_nonempty[of cfg api "issued + 1" "made + 1" ?st]
      show ?thesis
        by (simp add: stq ev calls_append calls_spacing)
    qed
  qed
qed

text \<open>
  Claim C3. The limiter's state changes only when a call is answered, by
  \<open>handle_response\<close>: the state a request leaves is the state after the answers to the
  calls it issued, in order. Over any sequence of answered calls the backoff delay after
  a failure is at most the one after the failure that follows it directly; a success
  sets the failure count to 0, the backoff delay to \<^verbatim>\<open>baseDelay\<close> and the timestamp to
  the time of that call, and so does every request that returns records, whatever
  failures came before.
\<close>

theorem backoff_monotone_and_reset:
  "(is_failure r1 \<and> is_failure r2 \<longrightarrow>
      currentBackoffDelay (after_calls cfg st (answered @ [(t1, r1)]))
        \<le> currentBackoffDelay (after_calls cfg st (answered @ [(t1, r1), (t2, r2)])))
   \<and> (\<not> is_failure r \<longrightarrow>
        consecutiveFailureCount (after_calls cfg st (answered @ [(t, r)])) = 0
        \<and> currentBackoffDelay (after_calls cfg st (answered @ [(t, r)])) = baseDelay cfg
        \<and> lastCallTimestamp (after_calls cfg st (answered @ [(t, r)])) = t)
   \<and> (\<exists>handled. state_of (fetch cfg api issued st now) = after_calls cfg st handled
        \<and> map snd handled = map api [issued ..< issued + length handled]
        \<and> map fst handled = calls (events_of (fetch cfg api issued st now)))
   \<and> (outcome_of (fetch cfg api issued st now) = Records recs \<longrightarrow>
        consecutiveFailureCount (state_of (fetch cfg api issued st now)) = 0
        \<and> currentBackoffDelay (state_of (fetch cfg api issued st now)) = baseDelay cfg
        \<and> lastCallTimestamp (state_of (fetch cfg api issued st now))
            = last (calls (events_of (fetch cfg api issued st now))))"
proof (intro conjI impI)
  assume "is_failure r1 \<and> is_failure r2"
  then show "currentBackoffDelay (after_calls cfg st (answered @ [(t1, r1)]))
        \<le> currentBackoffDelay (after_calls cfg st (answered @ [(t1, r1), (t2, r2)]))"
    by (simp add: after_calls_snoc after_calls_snoc2 handle_response_def on_failure_mono)
next
  assume "\<not> is_failure r"
  then have s: "after_calls cfg st (answered @ [(t, r)])
                  = on_success cfg t (after_calls cfg st answered)"
    by (simp add: after_calls_snoc handle_response_def)
  show "consecutiveFailureCount (after_calls cfg st (answered @ [(t, r)])) = 0"
    unfolding s by (simp add: on_success_def)
  show "currentBackoffDelay (after_calls cfg st (answered @ [(t, r)])) = baseDelay cfg"
    unfolding s by (simp add: on_success_def)
  show "lastCallTimestamp (after_calls cfg st (answered @ [(t, r)])) = t"
    unfolding s by (simp add: on_success_def)
next
  show "\<exists>handled. state_of (fetch cfg api issued st now) = after_calls cfg st handled
        \<and> map snd handled = map api [issued ..< issued + length handled]
        \<and> map fst handled = calls (events_of (fetch cfg api issued st now))"
    unfolding fetch_def by (rule attempt_state)
next
  assume "outcome_of (fetch cfg api issued st now) = Records recs"
  then have *: "consecutiveFailureCount (state_of (fetch cfg api issued st now)) = 0
        \<and> currentBackoffDelay (state_of (fetch cfg api issued st now)) = baseDelay cfg
        \<and> lastCallTimestamp (state_of (fetch cfg api issued st now))
            = last (calls (events_of (fetch cfg api issued st now)))"
    unfolding fetch_def by (rule attempt_records_state)
  from * show "consecutiveFailureCount (state_of (fetch cfg api issued st now)) = 0" by blast
  from * show "currentBackoffDelay (state_of (fetch cfg api issued st now)) = baseDelay cfg"
    by blast
  from * show "lastCallTimestamp (state_of (fetch cfg api issued st now))
            = last (calls (events_of (fetch cfg api issued st now)))" by blast
qed

lemma sample_recovery:
  "outcome_of (fetch sample_config throttled_twice 0 sample_state 100) = Records []
   \<and> events_of (fetch sample_config throttled_twice 0 sample_state 100)
       = [Call 100, Backoff 20, Call 120, Backoff 40, Call 160]"
  by code_simp

lemma sample_streak:
  "is_failure Throttled \<and> \<not> is_failure (Success [])
   \<and> currentBackoffDelay (after_calls sample_config sample_state [(100, Throttled)]) = 20
   \<and> currentBackoffDelay
        (after_calls sample_config sample_state [(100, Throttled), (120, Throttled)]) = 40"
  by code_simp

theorem backoff_monotone_and_reset_witness:
  "is_failure Throttled \<and> \<not> is_failure (Success [])
   \<and> currentBackoffDelay (after_calls sample_config sample_state [(100, Throttled)]) = 20
   \<and> currentBackoffDelay
        (after_calls sample_config sample_state [(100, Throttled), (120, Throttled)]) = 40
   \<and> outcome_of (fetch sample_config throttled_twice 0 sample_state 100) = Records []
   \<and> state_of (fetch sample_config throttled_twice 0 sample_state 100)
        = \<lparr>lastCallTimestamp = 160, currentBackoffDelay = 10, consecutiveFailureCount = 0\<rparr>
   \<and> after_calls sample_config sample_state
        [(100, Throttled), (120, Throttled), (160, Success [])]
        = \<lparr>lastCallTimestamp = 160, currentBackoffDelay = 10, consecutiveFailureCount = 0\<rparr>"
proof -
  note inst = backoff_monotone_and_reset
    [of Throttled Throttled sample_config sample_state "[]" 100 120 "Success []"
        160 throttled_twice 0 100 "[]"]
  have out: "outcome_of (fetch sample_config throttled_twice 0 sample_state 100) = Records []"
    using sample_recovery by blast
  have ev: "calls (events_of (fetch sample_config throttled_twice 0 sample_state 100))
              = [100, 120, 160]"
    using sample_recovery by simp
  have l: "last (calls (events_of (fetch sample_config throttled_twice 0 sample_state 100)))
             = 160"
    by (simp add: ev)
  have b: "baseDelay sample_config = 10" using sample_limits by blast
  from inst out have fields:
    "consecutiveFailureCount (state_of (fetch sample_config throttled_twice 0 sample_state 100)) = 0
     \<and> currentBackoffDelay (state_of (fetch sample_config throttled_twice 0 sample_state 100))
         = baseDelay sample_config
     \<and> lastCallTimestamp (state_of (fetch sample_config throttled_twice 0 sample_state 100))
         = last (calls (events_of (fetch sample_config throttled_twice 0 sample_state 100)))"
    by blast
  have st: "state_of (fetch sample_config throttled_twice 0 sample_state 100)
        = \<lparr>lastCallTimestamp = 160, currentBackoffDelay = 10, consecutiveFailureCount = 0\<rparr>"
    by (rule RateLimiterState.equality) (simp_all add: fields l b)
  have ac: "after_calls sample_config sample_state
        [(100, Throttled), (120, Throttled), (160, Success [])]
        = \<lparr>lastCallTimestamp = 160, currentBackoffDelay = 10, consecutiveFailureCount = 0\<rparr>"
    by code_simp
  show ?thesis using sample_streak out st ac by blast
qed


section \<open>Properties of the result normalizer\<close>

lemma dedup_refs_notin: "r \<in> set (dedup seen rs) \<Longrightarrow> reference r \<notin> seen"
  by (induction rs arbitrary: seen) (auto split: if_splits)

lemma dedup_distinct: "distinct (map reference (dedup seen rs))"
  by (induction rs arbitrary: seen) (auto dest: dedup_refs_notin)

lemma dedup_refs: "reference ` set (dedup seen rs) = reference ` set rs - seen"
  by (induction rs arbitrary: seen) auto

lemma dedup_subseq: "subseq (dedup seen rs) rs"
  by (induction rs arbitrary: seen) auto

lemma dedup_first:
  "r \<in> set (dedup seen rs) \<Longrightarrow> List.find (\<lambda>x. reference x = reference r) rs = Some r"
proof (induction rs arbitrary: seen)
  case Nil
  then show ?case by simp
next
  case (Cons a rs)
  show ?case
  proof (cases "reference a \<in> seen")
    case True
    with Cons.prems have "r \<in> set (dedup seen rs)" by simp
    moreover from this have "reference r \<notin> seen" by (rule dedup_refs_notin)
    ultimately show ?thesis using True Cons.IH by auto
  next
    case False
    with Cons.prems have "r = a \<or> r \<in> set (dedup (insert (reference a) seen) rs)" by simp
    then show ?thesis
    proof
      assume "r = a" then show ?thesis by simp
    next
      assume in': "r \<in> set (dedup (insert (reference a) seen) rs)"
      then have "reference r \<noteq> reference a" using dedup_refs_notin by fastforce
      then show ?thesis using Cons.IH[OF in'] by simp
    qed
  qed
qed

lemma dedup_id:
  "distinct (map reference rs) \<Longrightarrow> reference ` set rs \<inter> seen = {} \<Longrightarrow> dedup seen rs = rs"
  by (induction rs arbitrary: seen) auto

lemma normalize_distinct_id: "distinct (map reference rs) \<Longrightarrow> normalize_records rs = rs"
  by (simp add: normalize_records_def dedup_id)

lemma normalize_idem: "normalize_records (normalize_records rs) = normalize_records rs"
  by (simp add: normalize_records_def dedup_id dedup_distinct)

lemma normalize_length: "length (normalize_records rs) = card (reference ` set rs)"
proof -
  have "length (normalize_records rs) = length (map reference (normalize_records rs))"
    by simp
  also have "\<dots> = card (set (map reference (normalize_records rs)))"
    by (rule distinct_card[symmetric]) (simp add: normalize_records_def dedup_distinct)
  also have "\<dots> = card (reference ` set rs)"
    by (simp add: normalize_records_def dedup_refs)
  finally show ?thesis .
qed

lemma normalize_pages:
  assumes "distinct (map reference page1)" "distinct (map reference page2)"
  shows "length (normalize_records (page1 @ page2))
           + card (reference ` set page1 \<inter> reference ` set page2)
           = length page1 + length page2"
proof -
  have 1: "card (reference ` set page1) = length page1"
    using assms(1) distinct_card[of "map reference page1"] by simp
  have 2: "card (reference ` set page2) = length page2"
    using assms(2) distinct_card[of "map reference page2"] by simp
  have "card (reference ` set page1 \<union> reference ` set page2)
          + card (reference ` set page1 \<inter> reference ` set page2)
       = card (reference ` set page1) + card (reference ` set page2)"
    using card_Un_Int[of "reference ` set page1" "reference ` set page2"] by simp
  then show ?thesis by (simp add: normalize_length image_Un 1 2)
qed

text \<open>
  Claim C5. \<^verbatim>\<open>normalize\<close> returns one record for each reference of its input, namely
  the first record of the input with that reference, in the order of the input; a list
  whose references are pairwise different is returned unchanged, so \<^verbatim>\<open>normalize\<close> is
  idempotent; and two pages of 50 and 40 records, each without repetition and with 10
  references in common, normalize to 80 records.
\<close>

theorem normalize_first_seen:
  "distinct (map reference (normalize_records rs))
   \<and> reference ` set (normalize_records rs) = reference ` set rs
   \<and> subseq (normalize_records rs) rs
   \<and> (\<forall>r \<in> set (normalize_records rs).
         List.find (\<lambda>x. reference x = reference r) rs = Some r)
   \<and> (distinct (map reference rs) \<longrightarrow> normalize_records rs = rs)
   \<and> normalize_records (normalize_records rs) = normalize_records rs
   \<and> (distinct (map reference page1) \<and> distinct (map reference page2)
        \<and> length page1 = 50 \<and> length page2 = 40
        \<and> card (reference ` set page1 \<inter> reference ` set page2) = 10
        \<longrightarrow> length (normalize_records (page1 @ page2)) = 80)"
proof (intro conjI impI ballI)
  show "distinct (map reference (normalize_records rs))"
    by (simp add: normalize_records_def dedup_distinct)
next
  show "reference ` set (normalize_records rs) = reference ` set rs"
    by (simp add: normalize_records_def dedup_refs)
next
  show "subseq (normalize_records rs) rs"
    by (simp add: normalize_records_def dedup_subseq)
next
  fix r assume "r \<in> set (normalize_records rs)"
  then show "List.find (\<lambda>x. reference x = reference r) rs = Some r"
    unfolding normalize_records_def by (rule dedup_first)
next
  assume "distinct (map reference rs)"
  then show "normalize_records rs = rs" by (rule normalize_distinct_id)
next
  show "normalize_records (normalize_records rs) = normalize_records rs"
    by (rule normalize_idem)
next
  assume a: "distinct (map reference page1) \<and> distinct (map reference page2)
        \<and> length page1 = 50 \<and> length page2 = 40
        \<and> card (reference ` set page1 \<inter> reference ` set page2) = 10"
  then have "length (normalize_records (page1 @ page2))
           + card (reference ` set page1 \<inter> reference ` set page2)
           = length page1 + length page2"
    using normalize_pages by blast
  with a show "length (normalize_records (page1 @ page2)) = 80" by simp
qed

lemma sample_reference_inj: "inj (\<lambda>n. reference (sample_record n))"
  by (rule injI) (simp add: sample_record_def)

lemma sample_distinct: "distinct (map reference (map sample_record [a ..< b]))"
  using sample_reference_inj by (simp add: distinct_map comp_def inj_on_def inj_def)

lemma sample_overlap:
  "card (reference ` set sample_page1 \<inter> reference ` set sample_page2) = 10"
proof -
  let ?f = "\<lambda>n. reference (sample_record n)"
  have "reference ` set sample_page1 \<inter> reference ` set sample_page2
          = ?f ` {0 ..< 50} \<inter> ?f ` {40 ..< 80}"
    by (simp only: sample_page1_def sample_page2_def set_map set_upt image_image)
  also have "\<dots> = ?f ` ({0 ..< 50} \<inter> {40 ..< 80})"
    by (rule image_Int[OF sample_reference_inj, symmetric])
  also have "{0 ..< 50} \<inter> {40 ..< 80} = {40 ..< 50::nat}" by auto
  finally have "reference ` set sample_page1 \<inter> reference ` set sample_page2
                  = ?f ` {40 ..< 50}" .
  moreover have "card (?f ` {40 ..< 50}) = card {40 ..< 50::nat}"
    by (rule card_image) (use sample_reference_inj in \<open>simp add: inj_on_def inj_def\<close>)
  ultimately show ?thesis by simp
qed

lemma sample_pages:
  "distinct (map reference sample_page1) \<and> distinct (map reference sample_page2)
   \<and> length sample_page1 = 50 \<and> length sample_page2 = 40
   \<and> card (reference ` set sample_page1 \<inter> reference ` set sample_page2) = 10"
proof (intro conjI)
  show "distinct (map reference sample_page1)"
    unfolding sample_page1_def by (rule sample_distinct)
  show "distinct (map reference sample_page2)"
    unfolding sample_page2_def by (rule sample_distinct)
  show "length sample_page1 = 50"
    unfolding sample_page1_def by simp
  show "length sample_page2 = 40"
    unfolding sample_page2_def by simp
  show "card (reference ` set sample_page1 \<inter> reference ` set sample_page2) = 10"
    by (rule sample_overlap)
qed

lemma sample_raw_normalized: "normalize_records sample_raw = [sample_record 1, sample_record 2]"
  by code_simp

lemma sample_raw_first:
  "List.find (\<lambda>x. reference x = reference (sample_record 1)) sample_raw = Some (sample_record 1)
   \<and> List.find (\<lambda>x. reference x = reference (sample_record 2)) sample_raw
        = Some (sample_record 2)"
  by code_simp

theorem normalize_first_seen_witness:
  "normalize_records sample_raw = [sample_record 1, sample_record 2]
   \<and> List.find (\<lambda>x. reference x = reference (sample_record 1)) sample_raw
        = Some (sample_record 1)
   \<and> distinct (map reference (normalize_records sample_raw))
   \<and> normalize_records (normalize_records sample_raw) = normalize_records sample_raw
   \<and> distinct (map reference sample_page1) \<and> distinct (map reference sample_page2)
   \<and> length sample_page1 = 50 \<and> length sample_page2 = 40
   \<and> card (reference ` set sample_page1 \<inter> reference ` set sample_page2) = 10
   \<and> length (normalize_records (sample_page1 @ sample_page2)) = 80"
proof -
  note inst = normalize_first_seen [of sample_raw sample_page1 sample_page2]
  from inst sample_pages
  have "length (normalize_records (sample_page1 @ sample_page2)) = 80" by blast
  moreover from inst
  have "distinct (map reference (normalize_records sample_raw))
        \<and> normalize_records (normalize_records sample_raw) = normalize_records sample_raw"
    by blast
  ultimately show ?thesis using sample_pages sample_raw_normalized sample_raw_first by blast
qed

end
